theory Spec2Isabelle
  imports Complex_Main
begin

section \<open>Data model\<close>

text \<open>
  Python strings are modelled as \<open>string\<close>, one \<open>char\<close> per character; \<open>len\<close> is
  \<open>length\<close>. Playback times are Python floats that the program only stores, copies and
  truncates; they are modelled as \<open>real\<close>.
\<close>

text \<open>A caption snippet of the fetched transcript (\<open>snippet.text\<close>, \<open>snippet.start\<close>).\<close>

record snippet =
  snippet_text :: string
  snippet_start :: real

text \<open>The dictionaries \<open>{"text": ..., "start_time": ...}\<close> appended to \<open>chunks\<close>.\<close>

record chunk =
  chunk_text :: string
  start_time :: real

text \<open>The \<open>Document\<close> built in the main loop of \<open>load_to_chroma.py\<close>.\<close>

record document =
  page_content :: string
  video_url :: string
  doc_start_time :: real

text \<open>
  Exceptions raised inside the \<open>try\<close> block of \<open>create_chunks_with_timestamps\<close>: the two
  named in the first handler, and any other \<open>Exception\<close> with its message.
\<close>

datatype py_error = NoTranscriptFound | TranscriptsDisabled | OtherException string

section \<open>Python primitives used by the program\<close>

text \<open>
  A Python \<open>dict\<close> keeps insertion order; assigning to a key that is present replaces
  the value in place, assigning to a new key appends the entry.
\<close>

fun dict_set :: "('k \<times> 'v) list \<Rightarrow> 'k \<Rightarrow> 'v \<Rightarrow> ('k \<times> 'v) list" where
  "dict_set [] k v = [(k, v)]"
| "dict_set ((k', v') # kvs) k v =
     (if k' = k then (k, v) # kvs else (k', v') # dict_set kvs k v)"

text \<open>
  \<open>s.find(sub, start)\<close> for \<open>start \<ge> 0\<close>: the lowest index \<open>i \<ge> start\<close> with
  \<open>s[i:i+len(sub)] == sub\<close>, and \<open>-1\<close> (here \<open>None\<close>) when there is none; a start beyond
  the end of \<open>s\<close> finds nothing, not even the empty string. \<open>find_in sub rest i\<close> scans
  the remaining buffer \<open>rest\<close>, which begins at offset \<open>i\<close>.
\<close>

fun find_in :: "string \<Rightarrow> string \<Rightarrow> nat \<Rightarrow> nat option" where
  "find_in sub [] i = (if sub = [] then Some i else None)"
| "find_in sub (c # cs) i =
     (if take (length sub) (c # cs) = sub then Some i else find_in sub cs (Suc i))"

definition py_find :: "string \<Rightarrow> string \<Rightarrow> nat \<Rightarrow> nat option" where
  "py_find s sub start =
     (if length s < start then None else find_in sub (drop start s) start)"

text \<open>\<open>str.isspace\<close> on one character, for the characters a \<open>char\<close> can hold.\<close>

definition py_isspace :: "char \<Rightarrow> bool" where
  "py_isspace c =
     (let n = of_char c :: nat
      in (9 \<le> n \<and> n \<le> 13) \<or> (28 \<le> n \<and> n \<le> 32) \<or> n = 133 \<or> n = 160)"

text \<open>\<open>s.strip()\<close>: leading and trailing whitespace removed.\<close>

definition py_strip :: "string \<Rightarrow> string" where
  "py_strip s = rev (dropWhile py_isspace (rev (dropWhile py_isspace s)))"

text \<open>\<open>s.split("=")[-1]\<close>: what follows the last \<open>=\<close>, the whole string when there is none.\<close>

definition split_last :: "string \<Rightarrow> string" where
  "split_last s = rev (takeWhile (\<lambda>c. c \<noteq> CHR ''='') (rev s))"

text \<open>\<open>xs[:n]\<close> for any integer \<open>n\<close>: a negative \<open>n\<close> counts from the end.\<close>

definition slice_to :: "'a list \<Rightarrow> int \<Rightarrow> 'a list" where
  "slice_to xs n = (if n < 0 then take (length xs - nat (- n)) xs else take (nat n) xs)"

text \<open>\<open>int(x)\<close> on a float truncates toward zero.\<close>

definition py_int :: "real \<Rightarrow> int" where
  "py_int x = (if 0 \<le> x then \<lfloor>x\<rfloor> else \<lceil>x\<rceil>)"

text \<open>\<open>str(i)\<close> on an integer: its decimal digits, with a minus sign when negative.\<close>

definition digit_char :: "nat \<Rightarrow> char" where
  "digit_char d = char_of (48 + d)"

fun digits :: "nat \<Rightarrow> string" where
  "digits n = (if n < 10 then [digit_char n] else digits (n div 10) @ [digit_char (n mod 10)])"

declare digits.simps [simp del]

definition str_int :: "int \<Rightarrow> string" where
  "str_int i = (if i < 0 then CHR ''-'' # digits (nat (- i)) else digits (nat i))"

section \<open>Timestamp map builder (\<open>load_to_chroma.py\<close>, lines 56-65)\<close>

text \<open>
  The loop over the snippets, on its three variables \<open>full_transcript\<close>,
  \<open>timestamp_map\<close> and \<open>current_pos\<close>.
\<close>

fun build_loop ::
  "snippet list \<Rightarrow> string \<times> (nat \<times> real) list \<times> nat \<Rightarrow> string \<times> (nat \<times> real) list \<times> nat"
where
  "build_loop [] st = st"
| "build_loop (s # ss) (full_transcript, timestamp_map, current_pos) =
     (let text_to_add = snippet_text s @ '' ''
      in build_loop ss
           (full_transcript @ text_to_add,
            dict_set timestamp_map current_pos (snippet_start s),
            current_pos + length text_to_add))"

definition build_transcript :: "snippet list \<Rightarrow> string \<times> (nat \<times> real) list" where
  "build_transcript fetched_transcript =
     (case build_loop fetched_transcript ([], [], 0) of
        (full_transcript, timestamp_map, current_pos) \<Rightarrow> (full_transcript, timestamp_map))"

section \<open>Chunk locator (\<open>load_to_chroma.py\<close>, lines 77-102)\<close>

text \<open>
  Lines 83-86: the position of the chunk in the transcript, searched from
  \<open>search_start\<close>, and \<open>search_start\<close> itself when the search fails.
\<close>

definition chunk_start_pos :: "string \<Rightarrow> string \<Rightarrow> nat \<Rightarrow> nat" where
  "chunk_start_pos full_transcript chunk_txt search_start =
     (case py_find full_transcript chunk_txt search_start of
        None \<Rightarrow> search_start
      | Some p \<Rightarrow> p)"

text \<open>
  Lines 89-94: the scan of the map in insertion order, which stops at the first key
  beyond the position. The third argument is \<open>closest_timestamp\<close>.
\<close>

fun timestamp_scan :: "(nat \<times> real) list \<Rightarrow> nat \<Rightarrow> real \<Rightarrow> real" where
  "timestamp_scan [] p closest = closest"
| "timestamp_scan ((pos, timestamp) # rest) p closest =
     (if pos \<le> p then timestamp_scan rest p timestamp else closest)"

definition closest_timestamp :: "(nat \<times> real) list \<Rightarrow> nat \<Rightarrow> real" where
  "closest_timestamp timestamp_map p = timestamp_scan timestamp_map p 0"

text \<open>The loop over \<open>text_chunks\<close>, on its variables \<open>search_start\<close> and \<open>chunks\<close>.\<close>

fun locate_loop ::
  "string \<Rightarrow> (nat \<times> real) list \<Rightarrow> string list \<Rightarrow> nat \<Rightarrow> chunk list \<Rightarrow> chunk list \<times> nat"
where
  "locate_loop full_transcript timestamp_map [] search_start chunks = (chunks, search_start)"
| "locate_loop full_transcript timestamp_map (c # cs) search_start chunks =
     (let p = chunk_start_pos full_transcript c search_start;
          t = closest_timestamp timestamp_map p
      in locate_loop full_transcript timestamp_map cs (p + length c)
           (chunks @ [\<lparr>chunk_text = py_strip c, start_time = t\<rparr>]))"

definition locate_chunks :: "string \<Rightarrow> (nat \<times> real) list \<Rightarrow> string list \<Rightarrow> chunk list" where
  "locate_chunks full_transcript timestamp_map text_chunks =
     fst (locate_loop full_transcript timestamp_map text_chunks 0 [])"

text \<open>
  The values the cursor takes: for each chunk text in turn, the pair of \<open>search_start\<close>
  before the iteration and the position the chunk resolves to. A specification-level
  trace of the same loop; \<open>locate_loop_chunks\<close> and \<open>cursor_step\<close> below tie it to
  \<open>locate_loop\<close>.
\<close>

fun cursor_trace :: "string \<Rightarrow> string list \<Rightarrow> nat \<Rightarrow> (nat \<times> nat) list" where
  "cursor_trace full_transcript [] search_start = []"
| "cursor_trace full_transcript (c # cs) search_start =
     (let p = chunk_start_pos full_transcript c search_start
      in (search_start, p) # cursor_trace full_transcript cs (p + length c))"

section \<open>Per-video processing and the indexing loop\<close>

text \<open>
  The body of the \<open>try\<close> block of \<open>create_chunks_with_timestamps\<close>. The transcript
  service and the text splitter are libraries outside the repository and are parameters:
  \<open>fetch\<close> takes the video id, \<open>split_text\<close> takes the chunk size, the overlap and the
  transcript; either may raise.
\<close>

definition chunks_try ::
  "(string \<Rightarrow> py_error + snippet list) \<Rightarrow> (nat \<Rightarrow> nat \<Rightarrow> string \<Rightarrow> py_error + string list) \<Rightarrow>
   string \<Rightarrow> nat \<Rightarrow> nat \<Rightarrow> py_error + chunk list"
where
  "chunks_try fetch split_text url chunk_size chunk_overlap =
     (let video_id = split_last url
      in case fetch video_id of
           Inl e \<Rightarrow> Inl e
         | Inr fetched_transcript \<Rightarrow>
             (case build_transcript fetched_transcript of
                (full_transcript, timestamp_map) \<Rightarrow>
                  (case split_text chunk_size chunk_overlap full_transcript of
                     Inl e \<Rightarrow> Inl e
                   | Inr text_chunks \<Rightarrow>
                       Inr (locate_chunks full_transcript timestamp_map text_chunks))))"

text \<open>The function with its two handlers, each of which returns the empty list.\<close>

definition create_chunks_with_timestamps ::
  "(string \<Rightarrow> py_error + snippet list) \<Rightarrow> (nat \<Rightarrow> nat \<Rightarrow> string \<Rightarrow> py_error + string list) \<Rightarrow>
   string \<Rightarrow> nat \<Rightarrow> nat \<Rightarrow> chunk list"
where
  "create_chunks_with_timestamps fetch split_text url chunk_size chunk_overlap =
     (case chunks_try fetch split_text url chunk_size chunk_overlap of
        Inr chunks \<Rightarrow> chunks
      | Inl NoTranscriptFound \<Rightarrow> []
      | Inl TranscriptsDisabled \<Rightarrow> []
      | Inl (OtherException msg) \<Rightarrow> [])"

text \<open>Lines 149-157: one \<open>Document\<close> per chunk of the video.\<close>

definition docs_of_chunks :: "string \<Rightarrow> chunk list \<Rightarrow> document list" where
  "docs_of_chunks url chunks =
     map (\<lambda>c. \<lparr>page_content = chunk_text c, video_url = url, doc_start_time = start_time c\<rparr>)
       chunks"

text \<open>Lines 140-157: the loop over the video URLs, on its variable \<open>all_docs\<close>.\<close>

fun process_videos ::
  "(string \<Rightarrow> py_error + snippet list) \<Rightarrow> (nat \<Rightarrow> nat \<Rightarrow> string \<Rightarrow> py_error + string list) \<Rightarrow>
   nat \<Rightarrow> nat \<Rightarrow> string list \<Rightarrow> document list \<Rightarrow> document list"
where
  "process_videos fetch split_text chunk_size chunk_overlap [] all_docs = all_docs"
| "process_videos fetch split_text chunk_size chunk_overlap (url # urls) all_docs =
     (let chunks = create_chunks_with_timestamps fetch split_text url chunk_size chunk_overlap
      in process_videos fetch split_text chunk_size chunk_overlap urls
           (all_docs @ docs_of_chunks url chunks))"

definition index_videos ::
  "(string \<Rightarrow> py_error + snippet list) \<Rightarrow> (nat \<Rightarrow> nat \<Rightarrow> string \<Rightarrow> py_error + string list) \<Rightarrow>
   nat \<Rightarrow> nat \<Rightarrow> string list \<Rightarrow> document list"
where
  "index_videos fetch split_text chunk_size chunk_overlap video_urls =
     (if video_urls \<noteq> []
      then process_videos fetch split_text chunk_size chunk_overlap video_urls []
      else [])"

section \<open>Playlist enumeration (\<open>get_video_urls\<close>)\<close>

text \<open>
  \<open>extract_info\<close> belongs to a library and is a parameter: it raises (\<open>Inl\<close>) or returns
  the playlist dictionary, of which the program reads \<open>entries\<close> only. An entry is
  \<open>None\<close> or a dictionary of strings; \<open>playlist_entries\<close> is \<open>None\<close> when the key
  \<open>entries\<close> is absent.
\<close>

type_synonym video_entry = "(string \<times> string) list option"

record playlist_dict =
  playlist_entries :: "video_entry list option"

text \<open>Lines 28-30: the URLs of the entries that are truthy and have the key \<open>url\<close>.\<close>

fun collect_urls :: "video_entry list \<Rightarrow> string list \<Rightarrow> string list" where
  "collect_urls [] video_urls = video_urls"
| "collect_urls (video # rest) video_urls =
     (case video of
        None \<Rightarrow> collect_urls rest video_urls
      | Some d \<Rightarrow>
          (case map_of d ''url'' of
             None \<Rightarrow> collect_urls rest video_urls
           | Some u \<Rightarrow> collect_urls rest (video_urls @ [u])))"

text \<open>
  \<open>max_videos\<close> is \<open>None\<close> or an integer; \<open>if max_videos:\<close> holds for an integer other
  than zero.
\<close>

definition get_video_urls ::
  "(string \<Rightarrow> string + playlist_dict) \<Rightarrow> string \<Rightarrow> int option \<Rightarrow> string list"
where
  "get_video_urls extract_info playlist_url max_videos =
     (case extract_info playlist_url of
        Inl e \<Rightarrow> []
      | Inr pd \<Rightarrow>
          (let video_urls =
                 collect_urls (case playlist_entries pd of None \<Rightarrow> [] | Some es \<Rightarrow> es) []
           in case max_videos of
                None \<Rightarrow> video_urls
              | Some n \<Rightarrow> if n \<noteq> 0 then slice_to video_urls n else video_urls))"

section \<open>Query time (\<open>app.py\<close>)\<close>

definition format_timestamp_link :: "string \<Rightarrow> real \<Rightarrow> string" where
  "format_timestamp_link url start = url @ ''&t='' @ str_int (py_int start) @ ''s''"

text \<open>An entry of \<open>sources\<close>, and a message of \<open>st.session_state.messages\<close>.\<close>

record source =
  src_link :: string
  src_content :: string

record message =
  msg_role :: string
  msg_content :: string
  msg_sources :: "source list option"

text \<open>The response of the question-answering chain: \<open>result\<close> and \<open>source_documents\<close>.\<close>

record response =
  resp_result :: string
  resp_source_documents :: "document list"

text \<open>What the page shows, call by call.\<close>

datatype ui = Write string | Markdown string | Error string

text \<open>Lines 143-152: the sources prepared from the retrieved documents.\<close>

definition prepare_sources :: "document list \<Rightarrow> source list" where
  "prepare_sources docs =
     map (\<lambda>doc. \<lparr>src_link = format_timestamp_link (video_url doc) (doc_start_time doc),
                 src_content = page_content doc\<rparr>) docs"

text \<open>
  Lines 157-161: the expander's lines for the sources, numbered from \<open>i\<close>. The
  pictograph that precedes the word \<open>Source\<close> in the label is left out.
\<close>

fun show_sources :: "nat \<Rightarrow> nat \<Rightarrow> source list \<Rightarrow> ui list" where
  "show_sources i n [] = []"
| "show_sources i n (s # ss) =
     [Markdown (''**Source '' @ digits i @ '':** ['' @ src_link s @ '']('' @ src_link s @ '')''),
      Markdown (''> '' @ take 200 (src_content s) @ ''...'')]
     @ (if i < n then [Markdown ''---''] else [])
     @ show_sources (Suc i) n ss"

text \<open>
  The session state the chat uses. The chain is a library object and is a function
  here: it raises (\<open>Inl\<close>, with the text of the exception) or returns a response.
\<close>

record session =
  messages :: "message list"
  api_key_configured :: bool
  qa_chain :: "(string \<Rightarrow> string + response) option"

text \<open>
  Lines 124-176 of \<open>main\<close>: one question typed into the chat input. Calling a chain
  that is \<open>None\<close> raises inside the \<open>try\<close> block as well.
\<close>

definition call_chain :: "session \<Rightarrow> string \<Rightarrow> string + response" where
  "call_chain st prompt =
     (case qa_chain st of
        None \<Rightarrow> Inl (CHR 0x27 # ''NoneType'' @ CHR 0x27 # '' object is not callable'')
      | Some chain \<Rightarrow> chain prompt)"

definition error_msg :: "string \<Rightarrow> string" where
  "error_msg e = ''Sorry, I encountered an error: '' @ e"

definition ask :: "session \<Rightarrow> string \<Rightarrow> session \<times> ui list" where
  "ask st prompt =
     (if \<not> api_key_configured st then (st, [])
      else
        (let st1 = st\<lparr>messages := messages st
                      @ [\<lparr>msg_role = ''user'', msg_content = prompt, msg_sources = None\<rparr>]\<rparr>;
             shown = [Write prompt]
         in case call_chain st prompt of
              Inr resp \<Rightarrow>
                (let answer = resp_result resp;
                     sources = prepare_sources (resp_source_documents resp)
                 in (st1\<lparr>messages := messages st1
                          @ [\<lparr>msg_role = ''assistant'', msg_content = answer,
                              msg_sources = Some sources\<rparr>]\<rparr>,
                     shown @ [Write answer] @ show_sources 1 (length sources) sources))
            | Inl e \<Rightarrow>
                (st1\<lparr>messages := messages st1
                      @ [\<lparr>msg_role = ''assistant'', msg_content = error_msg e,
                          msg_sources = None\<rparr>]\<rparr>,
                 shown @ [Error (error_msg e)])))"

section \<open>Searching the transcript\<close>

lemma find_in_sound:
  "find_in sub s i = Some p \<Longrightarrow>
     i \<le> p \<and> p \<le> i + length s \<and> take (length sub) (drop (p - i) s) = sub \<and>
     (\<forall>j. j < p - i \<longrightarrow> take (length sub) (drop j s) \<noteq> sub)"
proof (induction s arbitrary: i)
  case Nil
  then show ?case by (auto split: if_splits)
next
  case (Cons c cs)
  show ?case
  proof (cases "take (length sub) (c # cs) = sub")
    case True
    with Cons.prems show ?thesis by simp
  next
    case False
    with Cons.prems have f: "find_in sub cs (Suc i) = Some p" by simp
    from Cons.IH [OF f] have a: "Suc i \<le> p" "p \<le> Suc i + length cs"
      "take (length sub) (drop (p - Suc i) cs) = sub"
      "\<forall>j. j < p - Suc i \<longrightarrow> take (length sub) (drop j cs) \<noteq> sub" by auto
    from a(1) have e: "p - i = Suc (p - Suc i)" by simp
    have "\<forall>j. j < p - i \<longrightarrow> take (length sub) (drop j (c # cs)) \<noteq> sub"
    proof (intro allI impI)
      fix j assume j: "j < p - i"
      show "take (length sub) (drop j (c # cs)) \<noteq> sub"
      proof (cases j)
        case 0
        with False show ?thesis by simp
      next
        case (Suc k)
        with j e have "k < p - Suc i" by simp
        with a(4) Suc show ?thesis by simp
      qed
    qed
    with a e show ?thesis by simp
  qed
qed

lemma find_in_none:
  "find_in sub s i = None \<Longrightarrow> j \<le> length s \<Longrightarrow> take (length sub) (drop j s) \<noteq> sub"
proof (induction s arbitrary: i j)
  case Nil
  then show ?case by (auto split: if_splits)
next
  case (Cons c cs)
  from Cons.prems(1) have n: "take (length sub) (c # cs) \<noteq> sub" and f: "find_in sub cs (Suc i) = None"
    by (auto split: if_splits)
  show ?case
  proof (cases j)
    case 0
    with n show ?thesis by simp
  next
    case (Suc k)
    with Cons.prems(2) have "k \<le> length cs" by simp
    from Cons.IH [OF f this] Suc show ?thesis by simp
  qed
qed

lemma py_find_some:
  "py_find s sub start = Some p \<Longrightarrow>
     start \<le> p \<and> p \<le> length s \<and> take (length sub) (drop p s) = sub \<and>
     (\<forall>j. start \<le> j \<and> j < p \<longrightarrow> take (length sub) (drop j s) \<noteq> sub)"
proof -
  assume a: "py_find s sub start = Some p"
  then have le: "start \<le> length s" and f: "find_in sub (drop start s) start = Some p"
    by (auto simp: py_find_def split: if_splits)
  from find_in_sound [OF f] have b: "start \<le> p" "p \<le> start + length (drop start s)"
    "take (length sub) (drop (p - start) (drop start s)) = sub"
    "\<forall>j. j < p - start \<longrightarrow> take (length sub) (drop j (drop start s)) \<noteq> sub" by auto
  from b(1) b(3) have c: "take (length sub) (drop p s) = sub" by simp
  have "\<forall>j. start \<le> j \<and> j < p \<longrightarrow> take (length sub) (drop j s) \<noteq> sub"
  proof (intro allI impI)
    fix j assume j: "start \<le> j \<and> j < p"
    then have "j - start < p - start" by arith
    with b(4) have "take (length sub) (drop (j - start) (drop start s)) \<noteq> sub" by blast
    with j show "take (length sub) (drop j s) \<noteq> sub" by simp
  qed
  with b(1) b(2) le c show ?thesis by simp
qed

lemma py_find_none:
  "py_find s sub start = None \<Longrightarrow> start \<le> j \<Longrightarrow> j \<le> length s \<Longrightarrow>
     take (length sub) (drop j s) \<noteq> sub"
proof -
  assume a: "py_find s sub start = None" and j: "start \<le> j" "j \<le> length s"
  then have f: "find_in sub (drop start s) start = None"
    by (auto simp: py_find_def split: if_splits)
  from j have "j - start \<le> length (drop start s)" by simp
  from find_in_none [OF f this] j show ?thesis by simp
qed

lemma chunk_start_pos_ge: "search_start \<le> chunk_start_pos full c search_start"
  by (auto simp: chunk_start_pos_def split: option.splits dest: py_find_some)

section \<open>The cursor of the chunk locator\<close>

lemma locate_loop_cursor_hd:
  "hd (map fst (cursor_trace full cs s) @ [snd (locate_loop full tm cs s acc)]) = s"
  by (cases cs) (simp_all add: Let_def)

lemma sorted_hd_le: "sorted xs \<Longrightarrow> y \<in> set xs \<Longrightarrow> hd xs \<le> (y::nat)"
  by (cases xs) auto

lemma cursor_values_sorted:
  "sorted (map fst (cursor_trace full cs s) @ [snd (locate_loop full tm cs s acc)])"
proof (induction cs arbitrary: s acc)
  case Nil
  show ?case by simp
next
  case (Cons c cs)
  define p where "p = chunk_start_pos full c s"
  define acc' where "acc' = acc @ [\<lparr>chunk_text = py_strip c, start_time = closest_timestamp tm p\<rparr>]"
  define L where "L = map fst (cursor_trace full cs (p + length c)) @ [snd (locate_loop full tm cs (p + length c) acc')]"
  have srt: "sorted L" unfolding L_def by (rule Cons.IH)
  have hdL: "hd L = p + length c" unfolding L_def by (rule locate_loop_cursor_hd)
  have sp: "s \<le> p" unfolding p_def by (rule chunk_start_pos_ge)
  have "\<forall>y\<in>set L. s \<le> y"
  proof
    fix y assume "y \<in> set L"
    from sorted_hd_le [OF srt this] hdL sp show "s \<le> y" by simp
  qed
  with srt have "sorted (s # L)" by simp
  moreover have "map fst (cursor_trace full (c # cs) s) @ [snd (locate_loop full tm (c # cs) s acc)] = s # L"
    by (simp add: Let_def L_def p_def acc'_def)
  ultimately show ?case by simp
qed

lemma cursor_trace_length: "length (cursor_trace full cs s) = length cs"
  by (induction cs arbitrary: s) (simp_all add: Let_def)

lemma cursor_trace_bounds:
  "(a, b) \<in> set (cursor_trace full cs s) \<Longrightarrow> s \<le> a \<and> a \<le> b"
proof (induction cs arbitrary: s)
  case Nil
  then show ?case by simp
next
  case (Cons c cs)
  have sp: "s \<le> chunk_start_pos full c s" by (rule chunk_start_pos_ge)
  from Cons.prems have "(a, b) = (s, chunk_start_pos full c s) \<or>
     (a, b) \<in> set (cursor_trace full cs (chunk_start_pos full c s + length c))"
    by (simp add: Let_def)
  then show ?case
  proof
    assume "(a, b) = (s, chunk_start_pos full c s)"
    with sp show ?thesis by simp
  next
    assume "(a, b) \<in> set (cursor_trace full cs (chunk_start_pos full c s + length c))"
    from Cons.IH [OF this] sp show ?thesis by simp
  qed
qed

lemma resolved_sorted: "sorted (map snd (cursor_trace full cs s))"
proof (induction cs arbitrary: s)
  case Nil
  show ?case by simp
next
  case (Cons c cs)
  define p where "p = chunk_start_pos full c s"
  have "\<forall>y\<in>set (map snd (cursor_trace full cs (p + length c))). p \<le> y"
  proof
    fix y assume "y \<in> set (map snd (cursor_trace full cs (p + length c)))"
    then obtain a where "(a, y) \<in> set (cursor_trace full cs (p + length c))" by auto
    from cursor_trace_bounds [OF this] show "p \<le> y" by simp
  qed
  with Cons.IH [of "p + length c"] show ?case by (simp add: Let_def p_def)
qed

lemma cursor_step:
  "i < length cs \<Longrightarrow>
     snd (cursor_trace full cs s ! i) = chunk_start_pos full (cs ! i) (fst (cursor_trace full cs s ! i)) \<and>
     (map fst (cursor_trace full cs s) @ [snd (locate_loop full tm cs s acc)]) ! Suc i
       = snd (cursor_trace full cs s ! i) + length (cs ! i)"
proof (induction cs arbitrary: s acc i)
  case Nil
  then show ?case by simp
next
  case (Cons c cs)
  define p where "p = chunk_start_pos full c s"
  define acc' where "acc' = acc @ [\<lparr>chunk_text = py_strip c, start_time = closest_timestamp tm p\<rparr>]"
  show ?case
  proof (cases i)
    case 0
    have "hd (map fst (cursor_trace full cs (p + length c)) @ [snd (locate_loop full tm cs (p + length c) acc')]) = p + length c"
      by (rule locate_loop_cursor_hd)
    then have "(map fst (cursor_trace full cs (p + length c)) @ [snd (locate_loop full tm cs (p + length c) acc')]) ! 0 = p + length c"
      by (simp add: hd_conv_nth)
    with 0 show ?thesis by (simp add: Let_def p_def acc'_def)
  next
    case (Suc k)
    with Cons.prems have "k < length cs" by simp
    from Cons.IH [OF this, of "p + length c" acc'] Suc show ?thesis
      by (simp add: Let_def p_def acc'_def)
  qed
qed

lemma locate_loop_chunks:
  "fst (locate_loop full tm cs s acc) =
     acc @ map (\<lambda>(c, (a, p)). \<lparr>chunk_text = py_strip c, start_time = closest_timestamp tm p\<rparr>)
             (zip cs (cursor_trace full cs s))"
  by (induction cs arbitrary: s acc) (simp_all add: Let_def)

text \<open>
  Claim C1. Whatever the transcript, the timestamp map and the sequence of chunk texts,
  the values of \<open>search_start\<close> (before each iteration, and after the last) never
  decrease, and neither do the positions the chunks resolve to. Each chunk resolves to
  the first occurrence of its text at or after \<open>search_start\<close>, or to \<open>search_start\<close>
  when there is none; \<open>search_start\<close> then becomes that position plus the length of
  the chunk text; the emitted timestamp is looked up at that position.
\<close>

theorem search_start_monotone:
  "sorted (map fst (cursor_trace full cs 0) @ [snd (locate_loop full tm cs 0 [])]) \<and>
   sorted (map snd (cursor_trace full cs 0)) \<and>
   (\<forall>i<length cs.
      (case py_find full (cs ! i) (fst (cursor_trace full cs 0 ! i)) of
         Some p \<Rightarrow> snd (cursor_trace full cs 0 ! i) = p
       | None \<Rightarrow> snd (cursor_trace full cs 0 ! i) = fst (cursor_trace full cs 0 ! i)) \<and>
      (map fst (cursor_trace full cs 0) @ [snd (locate_loop full tm cs 0 [])]) ! Suc i
        = snd (cursor_trace full cs 0 ! i) + length (cs ! i) \<and>
      start_time (locate_chunks full tm cs ! i)
        = closest_timestamp tm (snd (cursor_trace full cs 0 ! i)))"
proof (intro conjI allI impI)
  show "sorted (map fst (cursor_trace full cs 0) @ [snd (locate_loop full tm cs 0 [])])"
    by (rule cursor_values_sorted)
  show "sorted (map snd (cursor_trace full cs 0))" by (rule resolved_sorted)
next
  fix i assume i: "i < length cs"
  from cursor_step [OF i, of full 0 tm "[]"]
  show "case py_find full (cs ! i) (fst (cursor_trace full cs 0 ! i)) of
         Some p \<Rightarrow> snd (cursor_trace full cs 0 ! i) = p
       | None \<Rightarrow> snd (cursor_trace full cs 0 ! i) = fst (cursor_trace full cs 0 ! i)"
    by (simp add: chunk_start_pos_def split: option.splits)
  from cursor_step [OF i, of full 0 tm "[]"]
  show "(map fst (cursor_trace full cs 0) @ [snd (locate_loop full tm cs 0 [])]) ! Suc i
        = snd (cursor_trace full cs 0 ! i) + length (cs ! i)" by simp
  from i show "start_time (locate_chunks full tm cs ! i)
        = closest_timestamp tm (snd (cursor_trace full cs 0 ! i))"
    by (simp add: locate_chunks_def locate_loop_chunks cursor_trace_length split: prod.splits)
qed

theorem search_start_monotone_witness:
  "(1::nat) < length [''ab cd'', ''ab'', ''zz''] \<and>
   sorted (map snd (cursor_trace ''ab cd ab ef '' [''ab cd'', ''ab'', ''zz''] 0)) \<and>
   snd (cursor_trace ''ab cd ab ef '' [''ab cd'', ''ab'', ''zz''] 0 ! 1) = 6 \<and>
   start_time (locate_chunks ''ab cd ab ef '' [(0, 0), (3, 5), (6, 12), (9, 30)]
                 [''ab cd'', ''ab'', ''zz''] ! 1) = 12"
proof -
  have h: "(1::nat) < length [''ab cd'', ''ab'', ''zz'']" by simp
  have p: "cursor_trace ''ab cd ab ef '' [''ab cd'', ''ab'', ''zz''] 0 = [(0, 0), (5, 6), (8, 8)]"
    by code_simp
  have t: "closest_timestamp [(0, 0), (3, 5), (6, 12), (9, 30)] 6 = 12"
    by (simp add: closest_timestamp_def)
  from search_start_monotone
         [of "''ab cd ab ef ''" "[''ab cd'', ''ab'', ''zz'']" "[(0, 0), (3, 5), (6, 12), (9, 30)]"]
  have s: "sorted (map snd (cursor_trace ''ab cd ab ef '' [''ab cd'', ''ab'', ''zz''] 0))"
    and a: "\<forall>i<length [''ab cd'', ''ab'', ''zz''].
      (case py_find ''ab cd ab ef '' ([''ab cd'', ''ab'', ''zz''] ! i) (fst (cursor_trace ''ab cd ab ef '' [''ab cd'', ''ab'', ''zz''] 0 ! i)) of
         Some p \<Rightarrow> snd (cursor_trace ''ab cd ab ef '' [''ab cd'', ''ab'', ''zz''] 0 ! i) = p
       | None \<Rightarrow> snd (cursor_trace ''ab cd ab ef '' [''ab cd'', ''ab'', ''zz''] 0 ! i) = fst (cursor_trace ''ab cd ab ef '' [''ab cd'', ''ab'', ''zz''] 0 ! i)) \<and>
      (map fst (cursor_trace ''ab cd ab ef '' [''ab cd'', ''ab'', ''zz''] 0) @ [snd (locate_loop ''ab cd ab ef '' [(0, 0), (3, 5), (6, 12), (9, 30)] [''ab cd'', ''ab'', ''zz''] 0 [])]) ! Suc i
        = snd (cursor_trace ''ab cd ab ef '' [''ab cd'', ''ab'', ''zz''] 0 ! i) + length ([''ab cd'', ''ab'', ''zz''] ! i) \<and>
      start_time (locate_chunks ''ab cd ab ef '' [(0, 0), (3, 5), (6, 12), (9, 30)] [''ab cd'', ''ab'', ''zz''] ! i)
        = closest_timestamp [(0, 0), (3, 5), (6, 12), (9, 30)] (snd (cursor_trace ''ab cd ab ef '' [''ab cd'', ''ab'', ''zz''] 0 ! i))"
    by blast+
  from a h have "start_time (locate_chunks ''ab cd ab ef '' [(0, 0), (3, 5), (6, 12), (9, 30)] [''ab cd'', ''ab'', ''zz''] ! 1)
        = closest_timestamp [(0, 0), (3, 5), (6, 12), (9, 30)] (snd (cursor_trace ''ab cd ab ef '' [''ab cd'', ''ab'', ''zz''] 0 ! 1))"
    by blast
  with p t have "start_time (locate_chunks ''ab cd ab ef '' [(0, 0), (3, 5), (6, 12), (9, 30)] [''ab cd'', ''ab'', ''zz''] ! 1) = 12"
    by simp
  with h s p show ?thesis by simp
qed

text \<open>
  Claim C4. When the text of a chunk does not occur in the transcript at or after the
  current \<open>search_start\<close>, the chunk resolves to \<open>search_start\<close> itself; it is still
  emitted (the output has one chunk per chunk text), with its trimmed text and the
  timestamp looked up at \<open>search_start\<close>.
\<close>

theorem fallback_to_search_start:
  assumes "i < length cs"
    and "py_find full (cs ! i) (fst (cursor_trace full cs 0 ! i)) = None"
  shows "snd (cursor_trace full cs 0 ! i) = fst (cursor_trace full cs 0 ! i) \<and>
         length (locate_chunks full tm cs) = length cs \<and>
         locate_chunks full tm cs ! i =
           \<lparr>chunk_text = py_strip (cs ! i),
            start_time = closest_timestamp tm (fst (cursor_trace full cs 0 ! i))\<rparr>"
proof -
  from cursor_step [OF assms(1), of full 0 tm "[]"] assms(2)
  have a: "snd (cursor_trace full cs 0 ! i) = fst (cursor_trace full cs 0 ! i)"
    by (simp add: chunk_start_pos_def)
  have b: "length (locate_chunks full tm cs) = length cs"
    by (simp add: locate_chunks_def locate_loop_chunks cursor_trace_length)
  from assms(1) have "locate_chunks full tm cs ! i =
      \<lparr>chunk_text = py_strip (cs ! i),
       start_time = closest_timestamp tm (snd (cursor_trace full cs 0 ! i))\<rparr>"
    by (simp add: locate_chunks_def locate_loop_chunks cursor_trace_length split: prod.splits)
  with a b show ?thesis by simp
qed

theorem fallback_to_search_start_witness:
  "(2::nat) < length [''ab cd'', ''ab'', ''zz''] \<and>
   py_find ''ab cd ab ef '' ([''ab cd'', ''ab'', ''zz''] ! 2) 8 = None \<and>
   locate_chunks ''ab cd ab ef '' [(0, 0), (3, 5), (6, 12), (9, 30)] [''ab cd'', ''ab'', ''zz''] ! 2
     = \<lparr>chunk_text = ''zz'', start_time = 12\<rparr>"
proof -
  have h: "(2::nat) < length [''ab cd'', ''ab'', ''zz'']" by simp
  have p: "cursor_trace ''ab cd ab ef '' [''ab cd'', ''ab'', ''zz''] 0 = [(0, 0), (5, 6), (8, 8)]"
    by code_simp
  have f: "py_find ''ab cd ab ef '' ([''ab cd'', ''ab'', ''zz''] ! 2) 8 = None" by code_simp
  from p have f': "py_find ''ab cd ab ef '' ([''ab cd'', ''ab'', ''zz''] ! 2)
           (fst (cursor_trace ''ab cd ab ef '' [''ab cd'', ''ab'', ''zz''] 0 ! 2)) = None"
    using f by simp
  have t: "closest_timestamp [(0, 0), (3, 5), (6, 12), (9, 30)] 8 = 12"
    by (simp add: closest_timestamp_def)
  have s: "py_strip ''zz'' = ''zz''" by code_simp
  from fallback_to_search_start [OF h f', of "[(0, 0), (3, 5), (6, 12), (9, 30)]"] p t s
  have "locate_chunks ''ab cd ab ef '' [(0, 0), (3, 5), (6, 12), (9, 30)] [''ab cd'', ''ab'', ''zz''] ! 2
     = \<lparr>chunk_text = ''zz'', start_time = 12\<rparr>" by simp
  with h f show ?thesis by simp
qed


section \<open>The timestamp map\<close>

lemma dict_set_fresh: "k \<notin> fst ` set m \<Longrightarrow> dict_set m k v = m @ [(k, v)]"
  by (induction m) auto

lemma build_loop_gen:
  "\<forall>k\<in>fst ` set tm. k < pos \<Longrightarrow>
   \<exists>tm'. build_loop ss (full, tm, pos) =
            (full @ concat (map (\<lambda>s. snippet_text s @ '' '') ss), tm @ tm',
             pos + length (concat (map (\<lambda>s. snippet_text s @ '' '') ss))) \<and>
         length tm' = length ss \<and>
         sorted_wrt (<) (map fst tm') \<and>
         (\<forall>k\<in>fst ` set tm'. pos \<le> k) \<and>
         (\<forall>i<length ss. tm' ! i =
            (pos + length (concat (map (\<lambda>s. snippet_text s @ '' '') (take i ss))),
             snippet_start (ss ! i)))"
proof (induction ss arbitrary: full tm pos)
  case Nil
  show ?case by simp
next
  case (Cons s ss)
  let ?f = "\<lambda>s. snippet_text s @ '' ''"
  define pos' where "pos' = pos + length (?f s)"
  define tm1 where "tm1 = tm @ [(pos, snippet_start s)]"
  from Cons.prems have fresh: "pos \<notin> fst ` set tm" by auto
  have step: "build_loop (s # ss) (full, tm, pos) = build_loop ss (full @ ?f s, tm1, pos')"
    by (simp add: Let_def dict_set_fresh [OF fresh] tm1_def pos'_def)
  have lt: "pos < pos'" by (simp add: pos'_def)
  from Cons.prems lt have inv: "\<forall>k\<in>fst ` set tm1. k < pos'"
    by (auto simp: tm1_def)
  from Cons.IH [OF inv, of "full @ ?f s"] obtain tm2 where
    r: "build_loop ss (full @ ?f s, tm1, pos') =
          ((full @ ?f s) @ concat (map ?f ss), tm1 @ tm2, pos' + length (concat (map ?f ss)))"
    and len: "length tm2 = length ss"
    and srt: "sorted_wrt (<) (map fst tm2)"
    and lo: "\<forall>k\<in>fst ` set tm2. pos' \<le> k"
    and nth: "\<forall>i<length ss. tm2 ! i =
            (pos' + length (concat (map ?f (take i ss))), snippet_start (ss ! i))"
    by blast
  define tm' where "tm' = (pos, snippet_start s) # tm2"
  have 1: "build_loop (s # ss) (full, tm, pos) =
            (full @ concat (map ?f (s # ss)), tm @ tm', pos + length (concat (map ?f (s # ss))))"
    using step r by (simp add: tm1_def tm'_def pos'_def)
  have 2: "length tm' = length (s # ss)" using len by (simp add: tm'_def)
  have 3: "sorted_wrt (<) (map fst tm')" using srt lo lt by (auto simp: tm'_def)
  have 4: "\<forall>k\<in>fst ` set tm'. pos \<le> k" using lo lt by (auto simp: tm'_def)
  have 5: "\<forall>i<length (s # ss). tm' ! i =
            (pos + length (concat (map ?f (take i (s # ss)))), snippet_start ((s # ss) ! i))"
  proof (intro allI impI)
    fix i assume i: "i < length (s # ss)"
    show "tm' ! i = (pos + length (concat (map ?f (take i (s # ss)))), snippet_start ((s # ss) ! i))"
    proof (cases i)
      case 0
      then show ?thesis by (simp add: tm'_def)
    next
      case (Suc k)
      with i have "k < length ss" by simp
      with nth have "tm2 ! k = (pos' + length (concat (map ?f (take k ss))), snippet_start (ss ! k))"
        by blast
      with Suc show ?thesis by (simp add: tm'_def pos'_def)
    qed
  qed
  from 1 2 3 4 5 show ?case by blast
qed

lemma concat_split_nth:
  "i < length ss \<Longrightarrow>
   concat (map f ss) = concat (map f (take i ss)) @ f (ss ! i) @ concat (map f (drop (Suc i) ss))"
proof -
  assume "i < length ss"
  then have "ss = take i ss @ ss ! i # drop (Suc i) ss" by (rule id_take_nth_drop)
  then have "concat (map f ss) = concat (map f (take i ss @ ss ! i # drop (Suc i) ss))" by simp
  then show ?thesis by simp
qed

text \<open>
  Claim C2. For every sequence of caption snippets (the non-empty ones among them), the
  builder returns as transcript the concatenation of the snippet texts, each followed
  by one space, and a map with one entry per snippet, in the order of the snippets,
  whose keys increase strictly. The key of the \<open>i\<close>-th entry is the length of what
  precedes the \<open>i\<close>-th snippet in the transcript, the text of the snippet stands at that
  offset of the transcript, and the value of the entry is the start time of the snippet.
\<close>

theorem build_transcript_offsets:
  assumes "build_transcript ss = (buffer, tm)"
  shows "buffer = concat (map (\<lambda>s. snippet_text s @ '' '') ss) \<and>
         length tm = length ss \<and>
         sorted_wrt (<) (map fst tm) \<and>
         (\<forall>i<length ss.
            fst (tm ! i) = length (concat (map (\<lambda>s. snippet_text s @ '' '') (take i ss))) \<and>
            take (length (snippet_text (ss ! i))) (drop (fst (tm ! i)) buffer) = snippet_text (ss ! i) \<and>
            snd (tm ! i) = snippet_start (ss ! i))"
proof -
  let ?f = "\<lambda>s. snippet_text s @ '' ''"
  have "\<forall>k\<in>fst ` set ([] :: (nat \<times> real) list). k < 0" by simp
  from build_loop_gen [OF this, of ss "[]"] obtain tm' where
    r: "build_loop ss ([], [], 0) = (concat (map ?f ss), tm', length (concat (map ?f ss)))"
    and len: "length tm' = length ss"
    and srt: "sorted_wrt (<) (map fst tm')"
    and nth: "\<forall>i<length ss. tm' ! i =
            (0 + length (concat (map ?f (take i ss))), snippet_start (ss ! i))"
    by auto
  from assms r have b: "buffer = concat (map ?f ss)" and t: "tm = tm'"
    by (simp_all add: build_transcript_def)
  from len srt t have l: "length tm = length ss" and s: "sorted_wrt (<) (map fst tm)"
    by simp_all
  have q: "\<forall>i<length ss.
            fst (tm ! i) = length (concat (map ?f (take i ss))) \<and>
            take (length (snippet_text (ss ! i))) (drop (fst (tm ! i)) buffer) = snippet_text (ss ! i) \<and>
            snd (tm ! i) = snippet_start (ss ! i)"
  proof (intro allI impI)
    fix i assume i: "i < length ss"
    with nth t have e: "tm ! i = (length (concat (map ?f (take i ss))), snippet_start (ss ! i))"
      by simp
    have "drop (length (concat (map ?f (take i ss)))) buffer
            = ?f (ss ! i) @ concat (map ?f (drop (Suc i) ss))"
      unfolding b by (subst concat_split_nth [OF i, of ?f]) simp
    then have "take (length (snippet_text (ss ! i))) (drop (length (concat (map ?f (take i ss)))) buffer)
            = snippet_text (ss ! i)" by simp
    with e show "fst (tm ! i) = length (concat (map ?f (take i ss))) \<and>
            take (length (snippet_text (ss ! i))) (drop (fst (tm ! i)) buffer) = snippet_text (ss ! i) \<and>
            snd (tm ! i) = snippet_start (ss ! i)" by simp
  qed
  from b l s q show ?thesis by (intro conjI)
qed


theorem build_transcript_offsets_witness:
  "build_transcript [\<lparr>snippet_text = ''ab'', snippet_start = 0\<rparr>,
                     \<lparr>snippet_text = ''cde'', snippet_start = 5\<rparr>]
     = (''ab cde '', [(0, 0), (3, 5)]) \<and>
   (1::nat) < length [\<lparr>snippet_text = ''ab'', snippet_start = 0\<rparr>,
                      \<lparr>snippet_text = ''cde'', snippet_start = 5::real\<rparr>] \<and>
   take (length ''cde'') (drop 3 ''ab cde '') = ''cde'' \<and>
   sorted_wrt (<) (map fst [(0::nat, 0::real), (3, 5)])"
proof -
  let ?ss = "[\<lparr>snippet_text = ''ab'', snippet_start = 0\<rparr>,
              \<lparr>snippet_text = ''cde'', snippet_start = 5::real\<rparr>]"
  have h: "build_transcript ?ss = (''ab cde '', [(0, 0), (3, 5)])"
    by (simp add: build_transcript_def Let_def)
  have i: "(1::nat) < length ?ss" by simp
  from build_transcript_offsets [OF h]
  have s: "sorted_wrt (<) (map fst [(0::nat, 0::real), (3, 5)])"
    and a: "\<forall>i<length ?ss.
            fst ([(0::nat, 0::real), (3, 5)] ! i) = length (concat (map (\<lambda>s. snippet_text s @ '' '') (take i ?ss))) \<and>
            take (length (snippet_text (?ss ! i))) (drop (fst ([(0::nat, 0::real), (3, 5)] ! i)) ''ab cde '') = snippet_text (?ss ! i) \<and>
            snd ([(0::nat, 0::real), (3, 5)] ! i) = snippet_start (?ss ! i)"
    by blast+
  from a i have "take (length (snippet_text (?ss ! 1))) (drop (fst ([(0::nat, 0::real), (3, 5)] ! 1)) ''ab cde '') = snippet_text (?ss ! 1)"
    by blast
  then have "take (length ''cde'') (drop 3 ''ab cde '') = ''cde''" by simp
  with h i s show ?thesis by blast
qed

section \<open>Resolving the timestamp\<close>

lemma timestamp_scan_stop:
  "sorted_wrt (<) (map fst tm) \<Longrightarrow> \<forall>k\<in>fst ` set tm. p < k \<Longrightarrow> timestamp_scan tm p acc = acc"
  by (cases tm) auto

lemma timestamp_scan_greatest:
  "sorted_wrt (<) (map fst tm) \<Longrightarrow> (k, v) \<in> set tm \<Longrightarrow> k \<le> p \<Longrightarrow>
   \<forall>k'\<in>fst ` set tm. k' \<le> p \<longrightarrow> k' \<le> k \<Longrightarrow> timestamp_scan tm p acc = v"
proof (induction tm arbitrary: acc)
  case Nil
  then show ?case by simp
next
  case (Cons e tm)
  obtain k0 v0 where e: "e = (k0, v0)" by (cases e)
  from Cons.prems(1) e have srt: "sorted_wrt (<) (map fst tm)"
    and above: "\<forall>k'\<in>fst ` set tm. k0 < k'" by auto
  from Cons.prems(4) have grt: "\<forall>k'\<in>fst ` set tm. k' \<le> p \<longrightarrow> k' \<le> k" by simp
  show ?case
  proof (cases "(k, v) \<in> set tm")
    case True
    with above have "k0 < k" by force
    with Cons.prems(3) have "k0 \<le> p" by simp
    with e Cons.IH [OF srt True Cons.prems(3) grt] show ?thesis by simp
  next
    case False
    with Cons.prems(2) e have kv: "k0 = k" "v0 = v" by auto
    have "\<forall>k'\<in>fst ` set tm. p < k'"
    proof
      fix k' assume k': "k' \<in> fst ` set tm"
      with above kv have "k < k'" by blast
      with grt k' show "p < k'" by force
    qed
    from timestamp_scan_stop [OF srt this] e kv Cons.prems(3) show ?thesis by simp
  qed
qed

lemma locate_chunks_nth:
  "i < length cs \<Longrightarrow>
   locate_chunks full tm cs ! i =
     \<lparr>chunk_text = py_strip (cs ! i),
      start_time = closest_timestamp tm (snd (cursor_trace full cs 0 ! i))\<rparr>"
  by (simp add: locate_chunks_def locate_loop_chunks cursor_trace_length split: prod.splits)

lemma build_transcript_sorted:
  "build_transcript ss = (full, tm) \<Longrightarrow> sorted_wrt (<) (map fst tm)"
proof -
  assume a: "build_transcript ss = (full, tm)"
  have "\<forall>k\<in>fst ` set ([] :: (nat \<times> real) list). k < 0" by simp
  from build_loop_gen [OF this, of ss "[]"] a show ?thesis
    by (auto simp: build_transcript_def)
qed

text \<open>
  Claim C3. With the map built from the snippets, the start time emitted for the
  \<open>i\<close>-th chunk is the value of the entry with the greatest key not above the position
  the chunk resolves to, and 0 when every key is above it (as when the map is empty).
  For snippets with start times 0, 5, 12 and 30 and any texts, a chunk that resolves to
  a position from the offset of the third snippet up to, and not including, the offset
  of the fourth, gets the start time 12.
\<close>

theorem start_time_greatest_key:
  "(build_transcript ss = (full, tm) \<and> i < length cs \<longrightarrow>
      ((k, v) \<in> set tm \<and> k \<le> snd (cursor_trace full cs 0 ! i) \<and>
       (\<forall>k'\<in>fst ` set tm. k' \<le> snd (cursor_trace full cs 0 ! i) \<longrightarrow> k' \<le> k)
         \<longrightarrow> start_time (locate_chunks full tm cs ! i) = v) \<and>
      ((\<forall>k'\<in>fst ` set tm. snd (cursor_trace full cs 0 ! i) < k')
         \<longrightarrow> start_time (locate_chunks full tm cs ! i) = 0)) \<and>
   (build_transcript
      [\<lparr>snippet_text = a, snippet_start = 0\<rparr>, \<lparr>snippet_text = b, snippet_start = 5\<rparr>,
       \<lparr>snippet_text = c, snippet_start = 12\<rparr>, \<lparr>snippet_text = d, snippet_start = 30\<rparr>]
      = (full4, tm4) \<and> j < length cs4 \<and>
    length a + length b + 2 \<le> snd (cursor_trace full4 cs4 0 ! j) \<and>
    snd (cursor_trace full4 cs4 0 ! j) < length a + length b + length c + 3
      \<longrightarrow> start_time (locate_chunks full4 tm4 cs4 ! j) = 12)"
proof (intro conjI impI)
  assume h: "build_transcript ss = (full, tm) \<and> i < length cs"
  then have srt: "sorted_wrt (<) (map fst tm)" by (blast dest: build_transcript_sorted)
  from h have n: "start_time (locate_chunks full tm cs ! i)
      = closest_timestamp tm (snd (cursor_trace full cs 0 ! i))"
    by (simp add: locate_chunks_nth)
  {
    assume g: "(k, v) \<in> set tm \<and> k \<le> snd (cursor_trace full cs 0 ! i) \<and>
       (\<forall>k'\<in>fst ` set tm. k' \<le> snd (cursor_trace full cs 0 ! i) \<longrightarrow> k' \<le> k)"
    then have "timestamp_scan tm (snd (cursor_trace full cs 0 ! i)) 0 = v"
      using timestamp_scan_greatest [OF srt, of k v "snd (cursor_trace full cs 0 ! i)" 0] by blast
    with n show "start_time (locate_chunks full tm cs ! i) = v"
      by (simp add: closest_timestamp_def)
  }
  {
    assume g: "\<forall>k'\<in>fst ` set tm. snd (cursor_trace full cs 0 ! i) < k'"
    from timestamp_scan_stop [OF srt g] n
    show "start_time (locate_chunks full tm cs ! i) = 0"
      by (simp add: closest_timestamp_def)
  }
next
  assume h: "build_transcript
      [\<lparr>snippet_text = a, snippet_start = 0\<rparr>, \<lparr>snippet_text = b, snippet_start = 5\<rparr>,
       \<lparr>snippet_text = c, snippet_start = 12\<rparr>, \<lparr>snippet_text = d, snippet_start = 30\<rparr>]
      = (full4, tm4) \<and> j < length cs4 \<and>
    length a + length b + 2 \<le> snd (cursor_trace full4 cs4 0 ! j) \<and>
    snd (cursor_trace full4 cs4 0 ! j) < length a + length b + length c + 3"
  from h have tm4: "tm4 = [(0, 0), (length a + 1, 5), (length a + length b + 2, 12),
                          (length a + length b + length c + 3, 30)]"
    by (auto simp: build_transcript_def Let_def)
  from h have "start_time (locate_chunks full4 tm4 cs4 ! j)
      = closest_timestamp tm4 (snd (cursor_trace full4 cs4 0 ! j))"
    by (simp add: locate_chunks_nth)
  with h show "start_time (locate_chunks full4 tm4 cs4 ! j) = 12"
    by (simp add: tm4 closest_timestamp_def)
qed

theorem start_time_greatest_key_witness:
  "build_transcript [\<lparr>snippet_text = ''ab'', snippet_start = 0\<rparr>,
                     \<lparr>snippet_text = ''cde'', snippet_start = 5\<rparr>]
     = (''ab cde '', [(0, 0), (3, 5)]) \<and>
   (1::nat) < length [''ab'', ''de''] \<and>
   snd (cursor_trace ''ab cde '' [''ab'', ''de''] 0 ! 1) = 4 \<and>
   (3, 5) \<in> set [(0::nat, 0::real), (3, 5)] \<and> (3::nat) \<le> 4 \<and>
   start_time (locate_chunks ''ab cde '' [(0, 0), (3, 5)] [''ab'', ''de''] ! 1) = 5 \<and>
   build_transcript
      [\<lparr>snippet_text = ''a'', snippet_start = 0\<rparr>, \<lparr>snippet_text = ''b'', snippet_start = 5\<rparr>,
       \<lparr>snippet_text = ''ccc'', snippet_start = 12\<rparr>, \<lparr>snippet_text = ''d'', snippet_start = 30\<rparr>]
      = (''a b ccc d '', [(0, 0), (2, 5), (4, 12), (8, 30)]) \<and>
   snd (cursor_trace ''a b ccc d '' [''a b'', ''cc d''] 0 ! 1) = 5 \<and>
   start_time (locate_chunks ''a b ccc d '' [(0, 0), (2, 5), (4, 12), (8, 30)] [''a b'', ''cc d''] ! 1) = 12"
proof -
  let ?ss = "[\<lparr>snippet_text = ''ab'', snippet_start = 0\<rparr>,
              \<lparr>snippet_text = ''cde'', snippet_start = 5::real\<rparr>]"
  let ?tm = "[(0::nat, 0::real), (3, 5)]"
  let ?cs = "[''ab'', ''de'']"
  let ?ss4 = "[\<lparr>snippet_text = ''a'', snippet_start = 0::real\<rparr>, \<lparr>snippet_text = ''b'', snippet_start = 5\<rparr>,
       \<lparr>snippet_text = ''ccc'', snippet_start = 12\<rparr>, \<lparr>snippet_text = ''d'', snippet_start = 30\<rparr>]"
  let ?tm4 = "[(0::nat, 0::real), (2, 5), (4, 12), (8, 30)]"
  let ?cs4 = "[''a b'', ''cc d'']"
  have b: "build_transcript ?ss = (''ab cde '', ?tm)"
    by (simp add: build_transcript_def Let_def)
  have i: "(1::nat) < length ?cs" by simp
  have tr: "cursor_trace ''ab cde '' ?cs 0 = [(0, 0), (2, 4)]" by code_simp
  then have p: "snd (cursor_trace ''ab cde '' ?cs 0 ! 1) = 4" by simp
  have m: "(3, 5) \<in> set ?tm" by simp
  have g: "\<forall>k'\<in>fst ` set ?tm. k' \<le> 4 \<longrightarrow> k' \<le> 3" by simp
  have b4: "build_transcript ?ss4 = (''a b ccc d '', ?tm4)"
    by (simp add: build_transcript_def Let_def)
  have j: "(1::nat) < length ?cs4" by simp
  have tr4: "cursor_trace ''a b ccc d '' ?cs4 0 = [(0, 0), (3, 5)]" by code_simp
  then have p4: "snd (cursor_trace ''a b ccc d '' ?cs4 0 ! 1) = 5" by simp
  note t = start_time_greatest_key
    [of ?ss "''ab cde ''" ?tm 1 ?cs 3 5 "''a''" "''b''" "''ccc''" "''d''" "''a b ccc d ''" ?tm4 1 ?cs4]
  from t b i p m g
  have r1: "start_time (locate_chunks ''ab cde '' ?tm ?cs ! 1) = 5" by simp
  from t b4 j p4
  have r2: "start_time (locate_chunks ''a b ccc d '' ?tm4 ?cs4 ! 1) = 12" by simp
  from b i p m g r1 b4 p4 r2 show ?thesis by simp
qed

lemma timestamp_scan_value:
  "timestamp_scan tm p acc = acc \<or> timestamp_scan tm p acc \<in> snd ` set tm"
proof (induction tm arbitrary: acc)
  case Nil
  show ?case by simp
next
  case (Cons e tm)
  obtain k v where e: "e = (k, v)" by (cases e)
  from Cons.IH [of v] e show ?case by auto
qed

lemma build_transcript_values:
  "build_transcript ss = (full, tm) \<Longrightarrow> snd ` set tm \<subseteq> snippet_start ` set ss"
proof -
  assume a: "build_transcript ss = (full, tm)"
  have "\<forall>k\<in>fst ` set ([] :: (nat \<times> real) list). k < 0" by simp
  from build_loop_gen [OF this, of ss "[]"] a
  have len: "length tm = length ss"
    and nth: "\<forall>i<length ss. snd (tm ! i) = snippet_start (ss ! i)"
    by (auto simp: build_transcript_def)
  show ?thesis
  proof
    fix t assume "t \<in> snd ` set tm"
    then obtain i where "i < length tm" "t = snd (tm ! i)" by (auto simp: in_set_conv_nth)
    with len nth have "i < length ss" "t = snippet_start (ss ! i)" by simp_all
    then show "t \<in> snippet_start ` set ss" by simp
  qed
qed

lemma locate_chunks_values:
  "ch \<in> set (locate_chunks full tm cs) \<Longrightarrow> start_time ch = 0 \<or> start_time ch \<in> snd ` set tm"
proof -
  assume "ch \<in> set (locate_chunks full tm cs)"
  then obtain c p where "ch = \<lparr>chunk_text = py_strip c, start_time = closest_timestamp tm p\<rparr>"
    by (auto simp: locate_chunks_def locate_loop_chunks)
  with timestamp_scan_value [of tm p 0] show ?thesis by (auto simp: closest_timestamp_def)
qed

text \<open>
  Claim C10. For any transcript, any timestamp map and any chunk texts, the start time
  of every emitted chunk is 0 or a value stored in the map; and what
  \<open>create_chunks_with_timestamps\<close> returns has start times that are 0 or the start time
  of one of the snippets fetched for the video.
\<close>

theorem start_time_from_map:
  "(\<forall>ch\<in>set (locate_chunks full tm cs). start_time ch = 0 \<or> start_time ch \<in> snd ` set tm) \<and>
   (\<forall>ch\<in>set (create_chunks_with_timestamps fetch split_text url chunk_size chunk_overlap).
      start_time ch = 0 \<or>
      (\<exists>ss. fetch (split_last url) = Inr ss \<and> start_time ch \<in> snippet_start ` set ss))"
proof (intro conjI ballI)
  fix ch assume "ch \<in> set (locate_chunks full tm cs)"
  then show "start_time ch = 0 \<or> start_time ch \<in> snd ` set tm" by (rule locate_chunks_values)
next
  fix ch
  assume a: "ch \<in> set (create_chunks_with_timestamps fetch split_text url chunk_size chunk_overlap)"
  then obtain chunks where t: "chunks_try fetch split_text url chunk_size chunk_overlap = Inr chunks"
    and m: "ch \<in> set chunks"
    by (auto simp: create_chunks_with_timestamps_def split: sum.splits py_error.splits)
  from t obtain ss full' tm' text_chunks where f: "fetch (split_last url) = Inr ss"
    and b: "build_transcript ss = (full', tm')"
    and c: "chunks = locate_chunks full' tm' text_chunks"
    by (auto simp: chunks_try_def Let_def split: sum.splits prod.splits)
  from m c have "start_time ch = 0 \<or> start_time ch \<in> snd ` set tm'"
    by (simp add: locate_chunks_values)
  with build_transcript_values [OF b] f
  show "start_time ch = 0 \<or>
      (\<exists>ss. fetch (split_last url) = Inr ss \<and> start_time ch \<in> snippet_start ` set ss)"
    by auto
qed

theorem start_time_from_map_witness:
  "\<lparr>chunk_text = ''de'', start_time = 5\<rparr> \<in>
     set (create_chunks_with_timestamps
            (\<lambda>v. Inr [\<lparr>snippet_text = ''ab'', snippet_start = 0\<rparr>,
                       \<lparr>snippet_text = ''cde'', snippet_start = 5\<rparr>])
            (\<lambda>n k t. Inr [''ab'', ''de'']) ''watch?v=x'' 4 0) \<and>
   \<lparr>chunk_text = ''de'', start_time = 5\<rparr> \<in>
     set (locate_chunks ''ab cde '' [(0, 0), (3, 5)] [''ab'', ''de'']) \<and>
   (5::real) \<in> snd ` set [(0::nat, 0::real), (3, 5)] \<and>
   (5::real) \<in> snippet_start ` set [\<lparr>snippet_text = ''ab'', snippet_start = 0\<rparr>,
                                       \<lparr>snippet_text = ''cde'', snippet_start = 5\<rparr>]"
proof -
  let ?ss = "[\<lparr>snippet_text = ''ab'', snippet_start = 0\<rparr>,
              \<lparr>snippet_text = ''cde'', snippet_start = 5::real\<rparr>]"
  let ?fetch = "\<lambda>v::string. (Inr ?ss :: py_error + snippet list)"
  let ?split = "\<lambda>(n::nat) (k::nat) (t::string). (Inr [''ab'', ''de''] :: py_error + string list)"
  let ?tm = "[(0::nat, 0::real), (3, 5)]"
  let ?ch = "\<lparr>chunk_text = ''de'', start_time = 5::real\<rparr>"
  have l: "locate_chunks ''ab cde '' ?tm [''ab'', ''de'']
             = [\<lparr>chunk_text = ''ab'', start_time = 0\<rparr>, ?ch]"
    by code_simp
  have b: "build_transcript ?ss = (''ab cde '', ?tm)"
    by (simp add: build_transcript_def Let_def)
  have c: "create_chunks_with_timestamps ?fetch ?split ''watch?v=x'' 4 0
             = [\<lparr>chunk_text = ''ab'', start_time = 0\<rparr>, ?ch]"
    by (simp add: create_chunks_with_timestamps_def chunks_try_def b l)
  from l have m1: "?ch \<in> set (locate_chunks ''ab cde '' ?tm [''ab'', ''de''])" by simp
  from c have m2: "?ch \<in> set (create_chunks_with_timestamps ?fetch ?split ''watch?v=x'' 4 0)"
    by simp
  from start_time_from_map
         [of "''ab cde ''" ?tm "[''ab'', ''de'']" ?fetch ?split "''watch?v=x''" 4 0] m1 m2
  have "(start_time ?ch = 0 \<or> start_time ?ch \<in> snd ` set ?tm) \<and>
        (start_time ?ch = 0 \<or> (\<exists>ss. ?fetch (split_last ''watch?v=x'') = Inr ss \<and>
            start_time ?ch \<in> snippet_start ` set ss))"
    by blast
  then have "(5::real) \<in> snd ` set ?tm \<and> (5::real) \<in> snippet_start ` set ?ss" by simp
  with m1 m2 show ?thesis by blast
qed

lemma py_strip_empty_iff: "py_strip s = [] \<longleftrightarrow> (\<forall>x\<in>set s. py_isspace x)"
proof
  assume "py_strip s = []"
  then have "\<forall>x\<in>set (dropWhile py_isspace s). py_isspace x"
    by (simp add: py_strip_def)
  then have "dropWhile py_isspace s = []"
    using hd_dropWhile [of py_isspace s] by (cases "dropWhile py_isspace s") auto
  then show "\<forall>x\<in>set s. py_isspace x" by simp
next
  assume "\<forall>x\<in>set s. py_isspace x"
  then show "py_strip s = []" by (auto simp: py_strip_def dest: set_dropWhileD)
qed

lemma locate_chunks_texts: "map chunk_text (locate_chunks full tm cs) = map py_strip cs"
proof (rule nth_equalityI)
  show "length (map chunk_text (locate_chunks full tm cs)) = length (map py_strip cs)"
    by (simp add: locate_chunks_def locate_loop_chunks cursor_trace_length)
next
  fix i assume "i < length (map chunk_text (locate_chunks full tm cs))"
  then have i: "i < length cs"
    by (simp add: locate_chunks_def locate_loop_chunks cursor_trace_length)
  then have "i < length (locate_chunks full tm cs)"
    by (simp add: locate_chunks_def locate_loop_chunks cursor_trace_length)
  with i show "map chunk_text (locate_chunks full tm cs) ! i = map py_strip cs ! i"
    by (simp add: locate_chunks_nth)
qed

text \<open>
  Claim C5 says that a chunk text that is empty after trimming is dropped. The locator
  appends one dictionary per chunk text without looking at the trimmed text: the chunk
  text of one space is emitted with the empty text.
\<close>

theorem empty_chunk_emitted_counterexample:
  "py_strip '' '' = [] \<and>
   locate_chunks ''a  b '' [(0, 0)] [''a'', '' '', ''b'']
     = [\<lparr>chunk_text = ''a'', start_time = 0\<rparr>, \<lparr>chunk_text = [], start_time = 0\<rparr>,
        \<lparr>chunk_text = ''b'', start_time = 0\<rparr>]"
  by code_simp

text \<open>
  Claim C5, amended. The locator emits one chunk per chunk text, in order, whose text is
  the chunk text trimmed of whitespace; nothing is dropped, and the emitted text is
  empty exactly when the chunk text consists of whitespace only.
\<close>

theorem chunk_text_trimmed_not_dropped:
  "map chunk_text (locate_chunks full tm cs) = map py_strip cs \<and>
   (\<forall>i<length cs.
      (chunk_text (locate_chunks full tm cs ! i) = []) = (\<forall>x\<in>set (cs ! i). py_isspace x))"
proof (intro conjI allI impI)
  show "map chunk_text (locate_chunks full tm cs) = map py_strip cs"
    by (rule locate_chunks_texts)
next
  fix i assume "i < length cs"
  then show "(chunk_text (locate_chunks full tm cs ! i) = []) = (\<forall>x\<in>set (cs ! i). py_isspace x)"
    by (simp add: locate_chunks_nth py_strip_empty_iff)
qed

theorem chunk_text_trimmed_not_dropped_witness:
  "(1::nat) < length [''a'', '' '', ''b''] \<and>
   py_isspace (CHR '' '') \<and>
   chunk_text (locate_chunks ''a  b '' [(0, 0)] [''a'', '' '', ''b''] ! 1) = [] \<and>
   length (locate_chunks ''a  b '' [(0, 0)] [''a'', '' '', ''b'']) = 3"
proof -
  have i: "(1::nat) < length [''a'', '' '', ''b'']" by simp
  have w: "\<forall>x\<in>set ([''a'', '' '', ''b''] ! 1). py_isspace x" by (simp add: py_isspace_def)
  note t = chunk_text_trimmed_not_dropped [of "''a  b ''" "[(0, 0)]" "[''a'', '' '', ''b'']"]
  from t i w have e: "chunk_text (locate_chunks ''a  b '' [(0, 0)] [''a'', '' '', ''b''] ! 1) = []"
    by blast
  from t have "length (map chunk_text (locate_chunks ''a  b '' [(0, 0)] [''a'', '' '', ''b'']))
                 = length (map py_strip [''a'', '' '', ''b''])" by simp
  then have l: "length (locate_chunks ''a  b '' [(0, 0)] [''a'', '' '', ''b'']) = 3" by simp
  have sp: "py_isspace (CHR '' '')" by (simp add: py_isspace_def)
  from i sp e l show ?thesis by (intro conjI)
qed


section \<open>Failure of one video\<close>

lemma process_videos_acc:
  "process_videos fetch split_text n k urls all_docs =
     all_docs @ concat (map (\<lambda>u. docs_of_chunks u
                                  (create_chunks_with_timestamps fetch split_text u n k)) urls)"
  by (induction urls arbitrary: all_docs) (simp_all add: Let_def)

lemma create_chunks_failed:
  "chunks_try fetch split_text u n k = Inl e \<Longrightarrow>
   create_chunks_with_timestamps fetch split_text u n k = []"
  by (cases e) (simp_all add: create_chunks_with_timestamps_def)

lemma create_chunks_succeeded:
  "\<not> isl (chunks_try fetch split_text u n k) \<Longrightarrow>
   create_chunks_with_timestamps fetch split_text u n k
     = projr (chunks_try fetch split_text u n k)"
  by (cases "chunks_try fetch split_text u n k") (simp_all add: create_chunks_with_timestamps_def)

lemma fetch_failed:
  "fetch (split_last u) = Inl e \<Longrightarrow> chunks_try fetch split_text u n k = Inl e"
  by (simp add: chunks_try_def)

lemma concat_docs_filter:
  "concat (map (\<lambda>u. docs_of_chunks u (create_chunks_with_timestamps fetch split_text u n k)) urls)
   = concat (map (\<lambda>u. docs_of_chunks u (projr (chunks_try fetch split_text u n k)))
       (filter (\<lambda>u. \<not> isl (chunks_try fetch split_text u n k)) urls))"
proof (induction urls)
  case Nil
  show ?case by simp
next
  case (Cons u urls)
  show ?case
  proof (cases "chunks_try fetch split_text u n k")
    case (Inl e)
    then have "create_chunks_with_timestamps fetch split_text u n k = []"
      by (rule create_chunks_failed)
    with Inl Cons.IH show ?thesis by (simp add: docs_of_chunks_def)
  next
    case (Inr chunks)
    then have "create_chunks_with_timestamps fetch split_text u n k = chunks"
      by (simp add: create_chunks_with_timestamps_def)
    with Inr Cons.IH show ?thesis by simp
  qed
qed

text \<open>
  Claim C6. A video whose transcript fetch fails, with \<open>NoTranscriptFound\<close>,
  \<open>TranscriptsDisabled\<close> or any other exception, and more generally a video for which
  anything in the \<open>try\<close> block raises, gets the empty chunk list: the function returns
  a list and raises nothing. The documents of a batch are then the documents of the
  videos that succeeded, in the order of the batch, each with the chunks of its video.
\<close>

theorem video_failure_isolated:
  "(fetch (split_last url) = Inl e \<longrightarrow>
      create_chunks_with_timestamps fetch split_text url n k = []) \<and>
   (chunks_try fetch split_text url n k = Inl e \<longrightarrow>
      create_chunks_with_timestamps fetch split_text url n k = []) \<and>
   index_videos fetch split_text n k urls
     = concat (map (\<lambda>u. docs_of_chunks u (projr (chunks_try fetch split_text u n k)))
         (filter (\<lambda>u. \<not> isl (chunks_try fetch split_text u n k)) urls))"
proof (intro conjI impI)
  assume "fetch (split_last url) = Inl e"
  then have "chunks_try fetch split_text url n k = Inl e" by (rule fetch_failed)
  then show "create_chunks_with_timestamps fetch split_text url n k = []"
    by (rule create_chunks_failed)
next
  assume "chunks_try fetch split_text url n k = Inl e"
  then show "create_chunks_with_timestamps fetch split_text url n k = []"
    by (rule create_chunks_failed)
next
  have "index_videos fetch split_text n k urls
      = concat (map (\<lambda>u. docs_of_chunks u
                      (create_chunks_with_timestamps fetch split_text u n k)) urls)"
    by (cases urls) (simp_all add: index_videos_def process_videos_acc del: process_videos.simps)
  then show "index_videos fetch split_text n k urls
     = concat (map (\<lambda>u. docs_of_chunks u (projr (chunks_try fetch split_text u n k)))
         (filter (\<lambda>u. \<not> isl (chunks_try fetch split_text u n k)) urls))"
    by (simp only: concat_docs_filter)
qed

theorem video_failure_isolated_witness:
  "(\<lambda>v. if v = ''B'' then Inl TranscriptsDisabled
         else Inr [\<lparr>snippet_text = ''hi'', snippet_start = 1\<rparr>]) (split_last ''w?v=B'')
     = Inl TranscriptsDisabled \<and>
   create_chunks_with_timestamps
     (\<lambda>v. if v = ''B'' then Inl TranscriptsDisabled
           else Inr [\<lparr>snippet_text = ''hi'', snippet_start = 1\<rparr>])
     (\<lambda>n k t. Inr [t]) ''w?v=B'' 1000 200 = [] \<and>
   index_videos
     (\<lambda>v. if v = ''B'' then Inl TranscriptsDisabled
           else Inr [\<lparr>snippet_text = ''hi'', snippet_start = 1\<rparr>])
     (\<lambda>n k t. Inr [t]) 1000 200 [''w?v=A'', ''w?v=B'', ''w?v=C'']
     = [\<lparr>page_content = ''hi'', video_url = ''w?v=A'', doc_start_time = 1\<rparr>,
        \<lparr>page_content = ''hi'', video_url = ''w?v=C'', doc_start_time = 1\<rparr>]"
proof -
  let ?fetch = "\<lambda>v::string. if v = ''B'' then Inl TranscriptsDisabled
                   else (Inr [\<lparr>snippet_text = ''hi'', snippet_start = 1::real\<rparr>] :: py_error + snippet list)"
  let ?split = "\<lambda>(n::nat) (k::nat) t::string. (Inr [t] :: py_error + string list)"
  have f: "?fetch (split_last ''w?v=B'') = Inl TranscriptsDisabled"
    by (simp add: split_last_def)
  have l: "locate_chunks ''hi '' [(0, 1)] [''hi ''] = [\<lparr>chunk_text = ''hi'', start_time = 1\<rparr>]"
    by code_simp
  have b: "build_transcript [\<lparr>snippet_text = ''hi'', snippet_start = 1\<rparr>] = (''hi '', [(0, 1)])"
    by (simp add: build_transcript_def Let_def)
  have a: "chunks_try ?fetch ?split ''w?v=A'' 1000 200 = Inr [\<lparr>chunk_text = ''hi'', start_time = 1\<rparr>]"
    by (simp add: chunks_try_def split_last_def b l)
  have c: "chunks_try ?fetch ?split ''w?v=C'' 1000 200 = Inr [\<lparr>chunk_text = ''hi'', start_time = 1\<rparr>]"
    by (simp add: chunks_try_def split_last_def b l)
  have bb: "chunks_try ?fetch ?split ''w?v=B'' 1000 200 = Inl TranscriptsDisabled"
    by (simp add: chunks_try_def split_last_def)
  note t = video_failure_isolated
    [of ?fetch "''w?v=B''" TranscriptsDisabled ?split 1000 200 "[''w?v=A'', ''w?v=B'', ''w?v=C'']"]
  from t f have r1: "create_chunks_with_timestamps ?fetch ?split ''w?v=B'' 1000 200 = []"
    by blast
  from t have "index_videos ?fetch ?split 1000 200 [''w?v=A'', ''w?v=B'', ''w?v=C'']
     = concat (map (\<lambda>u. docs_of_chunks u (projr (chunks_try ?fetch ?split u 1000 200)))
         (filter (\<lambda>u. \<not> isl (chunks_try ?fetch ?split u 1000 200)) [''w?v=A'', ''w?v=B'', ''w?v=C'']))"
    by blast
  also have "\<dots> = [\<lparr>page_content = ''hi'', video_url = ''w?v=A'', doc_start_time = 1\<rparr>,
        \<lparr>page_content = ''hi'', video_url = ''w?v=C'', doc_start_time = 1\<rparr>]"
    by (simp only: filter.simps list.map concat.simps a bb c sum.disc sum.sel docs_of_chunks_def
          simp_thms if_True if_False append_Nil append_Nil2 append_Cons chunk.simps)
  finally have r2: "index_videos ?fetch ?split 1000 200 [''w?v=A'', ''w?v=B'', ''w?v=C'']
     = [\<lparr>page_content = ''hi'', video_url = ''w?v=A'', doc_start_time = 1\<rparr>,
        \<lparr>page_content = ''hi'', video_url = ''w?v=C'', doc_start_time = 1\<rparr>]" .
  from f r1 r2 show ?thesis by (intro conjI)
qed

section \<open>Citations and the chat history\<close>

lemma py_int_floor: "0 \<le> t \<Longrightarrow> py_int t = \<lfloor>t\<rfloor>"
  by (simp add: py_int_def)

lemma prepare_sources_links:
  "\<forall>d\<in>set docs. 0 \<le> doc_start_time d \<Longrightarrow>
   prepare_sources docs =
     map (\<lambda>d. \<lparr>src_link = video_url d @ ''&t='' @ str_int \<lfloor>doc_start_time d\<rfloor> @ ''s'',
                src_content = page_content d\<rparr>) docs"
  by (simp add: prepare_sources_def format_timestamp_link_def py_int_floor)

lemma show_sources_all:
  "show_sources i n ss =
     concat (map (\<lambda>j.
        [Markdown (''**Source '' @ digits (i + j) @ '':** ['' @ src_link (ss ! j) @ '']('' @
                   src_link (ss ! j) @ '')''),
         Markdown (''> '' @ take 200 (src_content (ss ! j)) @ ''...'')]
        @ (if i + j < n then [Markdown ''---''] else [])) [0..<length ss])"
proof (induction ss arbitrary: i)
  case Nil
  show ?case by simp
next
  case (Cons s ss)
  have u: "[0..<length (s # ss)] = 0 # map Suc [0..<length ss]"
    by (simp add: upt_conv_Cons map_Suc_upt del: upt_Suc)
  show ?case
    unfolding u by (simp add: Cons.IH [of "Suc i"] comp_def del: upt_Suc)
qed

text \<open>
  Claim C8. For a start time \<open>t \<ge> 0\<close> the link is the video URL followed by \<open>&t=\<close>,
  the decimal digits of \<open>floor t\<close> and \<open>s\<close>. When the chain answers a question and
  the retrieved documents have start times that are not negative, the sources stored
  with the assistant message carry, for every document, that link and the content of
  the document; and the page shows the question, the answer and then, for every
  retrieved document in order, the numbered line with its link and the line with the
  first 200 characters of its content (after the quote mark, and followed by three
  dots), with a rule between two sources.
\<close>

theorem citation_link_and_excerpt:
  assumes "api_key_configured st"
    and "call_chain st prompt = Inr resp"
    and "\<forall>d\<in>set (resp_source_documents resp). 0 \<le> doc_start_time d"
  shows "(0 \<le> t \<longrightarrow> format_timestamp_link u t = u @ ''&t='' @ str_int \<lfloor>t\<rfloor> @ ''s'') \<and>
         prepare_sources (resp_source_documents resp) =
           map (\<lambda>d. \<lparr>src_link = video_url d @ ''&t='' @ str_int \<lfloor>doc_start_time d\<rfloor> @ ''s'',
                      src_content = page_content d\<rparr>) (resp_source_documents resp) \<and>
         messages (fst (ask st prompt)) =
           messages st @
             [\<lparr>msg_role = ''user'', msg_content = prompt, msg_sources = None\<rparr>,
              \<lparr>msg_role = ''assistant'', msg_content = resp_result resp,
               msg_sources = Some
                 (map (\<lambda>d. \<lparr>src_link = video_url d @ ''&t='' @ str_int \<lfloor>doc_start_time d\<rfloor> @ ''s'',
                            src_content = page_content d\<rparr>) (resp_source_documents resp))\<rparr>] \<and>
         snd (ask st prompt) =
           [Write prompt, Write (resp_result resp)] @
           concat (map (\<lambda>j.
              [Markdown (''**Source '' @ digits (Suc j) @ '':** ['' @
                 video_url (resp_source_documents resp ! j) @ ''&t='' @
                 str_int \<lfloor>doc_start_time (resp_source_documents resp ! j)\<rfloor> @ ''s'' @ '']('' @
                 video_url (resp_source_documents resp ! j) @ ''&t='' @
                 str_int \<lfloor>doc_start_time (resp_source_documents resp ! j)\<rfloor> @ ''s'' @ '')''),
               Markdown (''> '' @ take 200 (page_content (resp_source_documents resp ! j)) @ ''...'')]
              @ (if Suc j < length (resp_source_documents resp) then [Markdown ''---''] else []))
             [0..<length (resp_source_documents resp)]) \<and>
         (\<forall>j<length (resp_source_documents resp).
            Markdown (''**Source '' @ digits (Suc j) @ '':** ['' @
                 video_url (resp_source_documents resp ! j) @ ''&t='' @
                 str_int \<lfloor>doc_start_time (resp_source_documents resp ! j)\<rfloor> @ ''s'' @ '']('' @
                 video_url (resp_source_documents resp ! j) @ ''&t='' @
                 str_int \<lfloor>doc_start_time (resp_source_documents resp ! j)\<rfloor> @ ''s'' @ '')'')
              \<in> set (snd (ask st prompt)) \<and>
            Markdown (''> '' @ take 200 (page_content (resp_source_documents resp ! j)) @ ''...'')
              \<in> set (snd (ask st prompt)))"
proof -
  define docs where "docs = resp_source_documents resp"
  define link where "link = (\<lambda>d::document. video_url d @ ''&t='' @ str_int \<lfloor>doc_start_time d\<rfloor> @ ''s'')"
  define srcs where "srcs = map (\<lambda>d. \<lparr>src_link = link d, src_content = page_content d\<rparr>) docs"
  define row where "row = (\<lambda>j.
              [Markdown (''**Source '' @ digits (Suc j) @ '':** ['' @ link (docs ! j) @ '']('' @
                 link (docs ! j) @ '')''),
               Markdown (''> '' @ take 200 (page_content (docs ! j)) @ ''...'')]
              @ (if Suc j < length docs then [Markdown ''---''] else []))"
  have c1: "0 \<le> t \<longrightarrow> format_timestamp_link u t = u @ ''&t='' @ str_int \<lfloor>t\<rfloor> @ ''s''"
    by (simp add: format_timestamp_link_def py_int_floor)
  from assms(3) have c2: "prepare_sources docs = srcs"
    unfolding docs_def srcs_def link_def by (rule prepare_sources_links)
  from assms(1,2) have a: "ask st prompt =
      (st\<lparr>messages := messages st @
             [\<lparr>msg_role = ''user'', msg_content = prompt, msg_sources = None\<rparr>,
              \<lparr>msg_role = ''assistant'', msg_content = resp_result resp,
               msg_sources = Some (prepare_sources docs)\<rparr>]\<rparr>,
       [Write prompt, Write (resp_result resp)]
         @ show_sources 1 (length (prepare_sources docs)) (prepare_sources docs))"
    by (simp add: ask_def Let_def docs_def del: show_sources.simps)
  from a c2 have c3: "messages (fst (ask st prompt)) = messages st @
             [\<lparr>msg_role = ''user'', msg_content = prompt, msg_sources = None\<rparr>,
              \<lparr>msg_role = ''assistant'', msg_content = resp_result resp,
               msg_sources = Some srcs\<rparr>]"
    by simp
  have len: "length srcs = length docs" by (simp add: srcs_def)
  have "show_sources 1 (length srcs) srcs =
      concat (map (\<lambda>j.
        [Markdown (''**Source '' @ digits (1 + j) @ '':** ['' @ src_link (srcs ! j) @ '']('' @
                   src_link (srcs ! j) @ '')''),
         Markdown (''> '' @ take 200 (src_content (srcs ! j)) @ ''...'')]
        @ (if 1 + j < length srcs then [Markdown ''---''] else [])) [0..<length srcs])"
    by (rule show_sources_all)
  also have "\<dots> = concat (map row [0..<length docs])"
    unfolding len
    by (rule arg_cong [where f = concat], rule map_cong)
       (simp_all add: row_def srcs_def)
  finally have "show_sources 1 (length srcs) srcs = concat (map row [0..<length docs])" .
  with a c2 have c4: "snd (ask st prompt) =
      [Write prompt, Write (resp_result resp)] @ concat (map row [0..<length docs])"
    by simp
  have c5: "\<forall>j<length docs.
      Markdown (''**Source '' @ digits (Suc j) @ '':** ['' @ link (docs ! j) @ '']('' @
                 link (docs ! j) @ '')'') \<in> set (snd (ask st prompt)) \<and>
      Markdown (''> '' @ take 200 (page_content (docs ! j)) @ ''...'') \<in> set (snd (ask st prompt))"
  proof (intro allI impI)
    fix j assume j: "j < length docs"
    then have "set (row j) \<subseteq> set (concat (map row [0..<length docs]))" by auto
    moreover have "Markdown (''**Source '' @ digits (Suc j) @ '':** ['' @ link (docs ! j) @ '']('' @
                 link (docs ! j) @ '')'') \<in> set (row j)"
      and "Markdown (''> '' @ take 200 (page_content (docs ! j)) @ ''...'') \<in> set (row j)"
      by (simp_all add: row_def)
    ultimately show "Markdown (''**Source '' @ digits (Suc j) @ '':** ['' @ link (docs ! j) @ '']('' @
                 link (docs ! j) @ '')'') \<in> set (snd (ask st prompt)) \<and>
      Markdown (''> '' @ take 200 (page_content (docs ! j)) @ ''...'') \<in> set (snd (ask st prompt))"
      unfolding c4 by auto
  qed
  from c1 c2 c3 c4 c5 show ?thesis
    unfolding srcs_def row_def link_def docs_def by (simp only: append_assoc) 
qed

theorem citation_link_and_excerpt_witness:
  "api_key_configured
     \<lparr>messages = [], api_key_configured = True,
      qa_chain = Some (\<lambda>q. Inr \<lparr>resp_result = ''ans'', resp_source_documents =
        [\<lparr>page_content = ''text'', video_url = ''w?v=a'', doc_start_time = 12.7\<rparr>,
         \<lparr>page_content = ''more'', video_url = ''w?v=b'', doc_start_time = 0\<rparr>]\<rparr>)\<rparr> \<and>
   (0::real) \<le> 12.7 \<and>
   format_timestamp_link ''https://y/watch?v=abc'' 12.7 = ''https://y/watch?v=abc&t=12s'' \<and>
   snd (ask
     \<lparr>messages = [], api_key_configured = True,
      qa_chain = Some (\<lambda>q. Inr \<lparr>resp_result = ''ans'', resp_source_documents =
        [\<lparr>page_content = ''text'', video_url = ''w?v=a'', doc_start_time = 12.7\<rparr>,
         \<lparr>page_content = ''more'', video_url = ''w?v=b'', doc_start_time = 0\<rparr>]\<rparr>)\<rparr> ''q'')
     = [Write ''q'', Write ''ans'',
        Markdown ''**Source 1:** [w?v=a&t=12s](w?v=a&t=12s)'', Markdown ''> text...'',
        Markdown ''---'',
        Markdown ''**Source 2:** [w?v=b&t=0s](w?v=b&t=0s)'', Markdown ''> more...'']"
proof -
  let ?docs = "[\<lparr>page_content = ''text'', video_url = ''w?v=a'', doc_start_time = 12.7\<rparr>,
         \<lparr>page_content = ''more'', video_url = ''w?v=b'', doc_start_time = 0\<rparr>]"
  let ?resp = "\<lparr>resp_result = ''ans'', resp_source_documents = ?docs\<rparr>"
  let ?st = "\<lparr>messages = [], api_key_configured = True,
      qa_chain = Some (\<lambda>q::string. (Inr ?resp :: string + response))\<rparr>"
  have h1: "api_key_configured ?st" by simp
  have h2: "call_chain ?st ''q'' = Inr ?resp" by (simp add: call_chain_def)
  have h3: "\<forall>d\<in>set (resp_source_documents ?resp). 0 \<le> doc_start_time d" by simp
  have t: "(0::real) \<le> 12.7" by simp
  have f: "\<lfloor>12.7::real\<rfloor> = 12" by simp
  have s12: "str_int 12 = ''12''" by code_simp
  have s0: "str_int 0 = ''0''" by code_simp
  have d1: "digits (Suc 0) = ''1''" by code_simp
  have d2: "digits (Suc (Suc 0)) = ''2''" by code_simp
  note th = citation_link_and_excerpt [OF h1 h2 h3, where t = "12.7" and u = "''https://y/watch?v=abc''"]
  from th t f s12
  have r1: "format_timestamp_link ''https://y/watch?v=abc'' 12.7 = ''https://y/watch?v=abc&t=12s''"
    by simp
  from th have "snd (ask ?st ''q'') =
           [Write ''q'', Write (resp_result ?resp)] @
           concat (map (\<lambda>j.
              [Markdown (''**Source '' @ digits (Suc j) @ '':** ['' @
                 video_url (resp_source_documents ?resp ! j) @ ''&t='' @
                 str_int \<lfloor>doc_start_time (resp_source_documents ?resp ! j)\<rfloor> @ ''s'' @ '']('' @
                 video_url (resp_source_documents ?resp ! j) @ ''&t='' @
                 str_int \<lfloor>doc_start_time (resp_source_documents ?resp ! j)\<rfloor> @ ''s'' @ '')''),
               Markdown (''> '' @ take 200 (page_content (resp_source_documents ?resp ! j)) @ ''...'')]
              @ (if Suc j < length (resp_source_documents ?resp) then [Markdown ''---''] else []))
             [0..<length (resp_source_documents ?resp)])"
    by blast
  then have r2: "snd (ask ?st ''q'')
     = [Write ''q'', Write ''ans'',
        Markdown ''**Source 1:** [w?v=a&t=12s](w?v=a&t=12s)'', Markdown ''> text...'',
        Markdown ''---'',
        Markdown ''**Source 2:** [w?v=b&t=0s](w?v=b&t=0s)'', Markdown ''> more...'']"
    by (simp add: f s12 s0 d1 d2)
  from h1 t r1 r2 show ?thesis by (intro conjI)
qed

text \<open>
  Claim C9. When the chain raises on a question, the messages afterwards are the
  messages before, then the question of the user, then an assistant message with the
  error text; the error is shown on the page; and the session keeps its key flag and
  its chain, so that the next question is handled and adds its two messages.
\<close>

theorem failed_question_keeps_history:
  assumes "api_key_configured st" and "call_chain st prompt = Inl e"
  shows "messages (fst (ask st prompt)) =
           messages st @
             [\<lparr>msg_role = ''user'', msg_content = prompt, msg_sources = None\<rparr>,
              \<lparr>msg_role = ''assistant'',
               msg_content = ''Sorry, I encountered an error: '' @ e, msg_sources = None\<rparr>] \<and>
         take (length (messages st)) (messages (fst (ask st prompt))) = messages st \<and>
         snd (ask st prompt) = [Write prompt, Error (''Sorry, I encountered an error: '' @ e)] \<and>
         api_key_configured (fst (ask st prompt)) \<and>
         qa_chain (fst (ask st prompt)) = qa_chain st \<and>
         length (messages (fst (ask (fst (ask st prompt)) prompt2))) = length (messages st) + 4"
proof -
  from assms have a: "ask st prompt =
      (st\<lparr>messages := messages st @
             [\<lparr>msg_role = ''user'', msg_content = prompt, msg_sources = None\<rparr>,
              \<lparr>msg_role = ''assistant'',
               msg_content = ''Sorry, I encountered an error: '' @ e, msg_sources = None\<rparr>]\<rparr>,
       [Write prompt, Error (''Sorry, I encountered an error: '' @ e)])"
    by (simp add: ask_def Let_def error_msg_def)
  define st' where "st' = fst (ask st prompt)"
  from a have m: "messages st' = messages st @
             [\<lparr>msg_role = ''user'', msg_content = prompt, msg_sources = None\<rparr>,
              \<lparr>msg_role = ''assistant'',
               msg_content = ''Sorry, I encountered an error: '' @ e, msg_sources = None\<rparr>]"
    and k: "api_key_configured st'" and q: "qa_chain st' = qa_chain st"
    using assms(1) by (simp_all add: st'_def)
  from k have "length (messages (fst (ask st' prompt2))) = length (messages st') + 2"
    by (cases "call_chain st' prompt2") (simp_all add: ask_def Let_def)
  with m have n: "length (messages (fst (ask st' prompt2))) = length (messages st) + 4" by simp
  from m have tk: "take (length (messages st)) (messages st') = messages st" by simp
  from a have s: "snd (ask st prompt) = [Write prompt, Error (''Sorry, I encountered an error: '' @ e)]"
    by simp
  from m tk s k q n show ?thesis unfolding st'_def by (intro conjI)
qed

theorem failed_question_keeps_history_witness:
  "api_key_configured \<lparr>messages = [\<lparr>msg_role = ''user'', msg_content = ''q0'', msg_sources = None\<rparr>],
       api_key_configured = True, qa_chain = Some (\<lambda>q. Inl ''timeout'')\<rparr> \<and>
   call_chain \<lparr>messages = [\<lparr>msg_role = ''user'', msg_content = ''q0'', msg_sources = None\<rparr>],
       api_key_configured = True, qa_chain = Some (\<lambda>q. Inl ''timeout'')\<rparr> ''q1'' = Inl ''timeout'' \<and>
   messages (fst (ask \<lparr>messages = [\<lparr>msg_role = ''user'', msg_content = ''q0'', msg_sources = None\<rparr>],
       api_key_configured = True, qa_chain = Some (\<lambda>q. Inl ''timeout'')\<rparr> ''q1''))
     = [\<lparr>msg_role = ''user'', msg_content = ''q0'', msg_sources = None\<rparr>,
        \<lparr>msg_role = ''user'', msg_content = ''q1'', msg_sources = None\<rparr>,
        \<lparr>msg_role = ''assistant'', msg_content = ''Sorry, I encountered an error: timeout'',
         msg_sources = None\<rparr>]"
proof -
  let ?st = "\<lparr>messages = [\<lparr>msg_role = ''user'', msg_content = ''q0'', msg_sources = None\<rparr>],
       api_key_configured = True, qa_chain = Some (\<lambda>q::string. (Inl ''timeout'' :: string + response))\<rparr>"
  have h1: "api_key_configured ?st" by simp
  have h2: "call_chain ?st ''q1'' = Inl ''timeout''" by (simp add: call_chain_def)
  from failed_question_keeps_history [OF h1 h2]
  have "messages (fst (ask ?st ''q1'')) = messages ?st @
             [\<lparr>msg_role = ''user'', msg_content = ''q1'', msg_sources = None\<rparr>,
              \<lparr>msg_role = ''assistant'',
               msg_content = ''Sorry, I encountered an error: '' @ ''timeout'', msg_sources = None\<rparr>]"
    by blast
  then have r: "messages (fst (ask ?st ''q1''))
     = [\<lparr>msg_role = ''user'', msg_content = ''q0'', msg_sources = None\<rparr>,
        \<lparr>msg_role = ''user'', msg_content = ''q1'', msg_sources = None\<rparr>,
        \<lparr>msg_role = ''assistant'', msg_content = ''Sorry, I encountered an error: timeout'',
         msg_sources = None\<rparr>]" by simp
  from h1 h2 r show ?thesis by (intro conjI)
qed

section \<open>The cap on the playlist\<close>

lemma collect_urls_acc:
  "collect_urls es acc =
     acc @ List.map_filter (\<lambda>v. case v of None \<Rightarrow> None | Some d \<Rightarrow> map_of d ''url'') es"
proof (induction es arbitrary: acc)
  case Nil
  show ?case by simp
next
  case (Cons e es)
  show ?case
  proof (cases e)
    case None
    with Cons.IH [of acc] show ?thesis by simp
  next
    case (Some d)
    show ?thesis
    proof (cases "map_of d ''url''")
      case None
      with Some Cons.IH [of acc] show ?thesis by simp
    next
      case u: (Some u)
      with Some Cons.IH [of "acc @ [u]"] show ?thesis by simp
    qed
  qed
qed

text \<open>
  Claim C7 says that the cap applies for every non-negative maximum, 0 included. The
  guard \<open>if max_videos:\<close> does not hold for 0, so with a maximum of 0 the whole list is
  returned.
\<close>

theorem get_video_urls_max_zero_counterexample:
  "get_video_urls
     (\<lambda>u. Inr \<lparr>playlist_entries = Some [Some [(''url'', ''v1'')], Some [(''url'', ''v2'')]]\<rparr>)
     ''PL'' (Some 0) = [''v1'', ''v2''] \<and>
   \<not> length (get_video_urls
     (\<lambda>u. Inr \<lparr>playlist_entries = Some [Some [(''url'', ''v1'')], Some [(''url'', ''v2'')]]\<rparr>)
     ''PL'' (Some 0)) \<le> nat 0"
  by (simp add: get_video_urls_def)

text \<open>
  Claim C7, amended. For every positive maximum \<open>n\<close>, \<open>get_video_urls\<close> returns the
  first \<open>n\<close> URLs of the uncapped result, so at most \<open>n\<close> of them; a maximum of 0
  applies no cap, like \<open>None\<close>; and the uncapped result is the URLs of the entries that
  have one, in the order of the playlist.
\<close>

theorem get_video_urls_capped:
  "(0 < n \<longrightarrow>
      get_video_urls extract_info playlist_url (Some n)
        = take (nat n) (get_video_urls extract_info playlist_url None) \<and>
      length (get_video_urls extract_info playlist_url (Some n)) \<le> nat n) \<and>
   get_video_urls extract_info playlist_url (Some 0)
     = get_video_urls extract_info playlist_url None \<and>
   (extract_info playlist_url = Inr pd \<and> playlist_entries pd = Some es \<longrightarrow>
      get_video_urls extract_info playlist_url None
        = List.map_filter (\<lambda>v. case v of None \<Rightarrow> None | Some d \<Rightarrow> map_of d ''url'') es)"
proof (intro conjI impI)
  assume "0 < n"
  then show "get_video_urls extract_info playlist_url (Some n)
        = take (nat n) (get_video_urls extract_info playlist_url None)"
    by (cases "extract_info playlist_url") (simp_all add: get_video_urls_def slice_to_def Let_def)
  then show "length (get_video_urls extract_info playlist_url (Some n)) \<le> nat n" by simp
next
  show "get_video_urls extract_info playlist_url (Some 0)
     = get_video_urls extract_info playlist_url None"
    by (cases "extract_info playlist_url") (simp_all add: get_video_urls_def Let_def)
next
  assume "extract_info playlist_url = Inr pd \<and> playlist_entries pd = Some es"
  then show "get_video_urls extract_info playlist_url None
        = List.map_filter (\<lambda>v. case v of None \<Rightarrow> None | Some d \<Rightarrow> map_of d ''url'') es"
    by (simp add: get_video_urls_def Let_def collect_urls_acc del: collect_urls.simps)
qed

theorem get_video_urls_capped_witness:
  "(0::int) < 2 \<and>
   get_video_urls
     (\<lambda>u. Inr \<lparr>playlist_entries =
        Some [Some [(''url'', ''v1'')], None, Some [(''id'', ''x'')], Some [(''url'', ''v2'')],
              Some [(''url'', ''v3'')]]\<rparr>)
     ''PL'' (Some 2) = [''v1'', ''v2''] \<and>
   get_video_urls
     (\<lambda>u. Inr \<lparr>playlist_entries =
        Some [Some [(''url'', ''v1'')], None, Some [(''id'', ''x'')], Some [(''url'', ''v2'')],
              Some [(''url'', ''v3'')]]\<rparr>)
     ''PL'' None = [''v1'', ''v2'', ''v3'']"
proof -
  let ?es = "[Some [(''url'', ''v1'')], None, Some [(''id'', ''x'')], Some [(''url'', ''v2'')],
              Some [(''url'', ''v3'')]]"
  let ?pd = "\<lparr>playlist_entries = Some ?es\<rparr>"
  let ?ex = "\<lambda>u::string. (Inr ?pd :: string + playlist_dict)"
  have n: "(0::int) < 2" by simp
  have h: "?ex ''PL'' = Inr ?pd \<and> playlist_entries ?pd = Some ?es" by simp
  have m: "List.map_filter (\<lambda>v. case v of None \<Rightarrow> None | Some d \<Rightarrow> map_of d ''url'') ?es
             = [''v1'', ''v2'', ''v3'']"
    by simp
  note t = get_video_urls_capped [of 2 ?ex "''PL''" ?pd ?es]
  from t h m have a: "get_video_urls ?ex ''PL'' None = [''v1'', ''v2'', ''v3'']" by simp
  from t n have "get_video_urls ?ex ''PL'' (Some 2) = take (nat 2) (get_video_urls ?ex ''PL'' None)"
    by blast
  with a have b: "get_video_urls ?ex ''PL'' (Some 2) = [''v1'', ''v2'']" by simp
  from n b a show ?thesis by (intro conjI)
qed

end
